(* ===== verification/Slayout_Prelude.thy ===== *)
theory Slayout_Prelude
  imports Main
begin

text \<open>
  Shared vocabulary of the slayout development: the error values that stand for the C++
  exceptions of the sources, the result type and its sequencing operator, the character
  classes of \<^verbatim>\<open><cctype>\<close> in the C locale, \<^verbatim>\<open>std::to_string\<close> on \<^verbatim>\<open>int\<close>, and the lemma
  collections the component theories fill and use.
\<close>

section \<open>Lemma collections\<close>

named_theorems frame \<open>fields and values an operation leaves unchanged\<close>
named_theorems progress \<open>how far an operation moves the read position\<close>
named_theorems run_simps \<open>equations that evaluate the model on concrete inputs\<close>

section \<open>Errors as values\<close>

text \<open>
  Every \<^verbatim>\<open>throw std::runtime_error(msg)\<close> of the sources is \<open>Inl (RuntimeError msg)\<close>
  with the message the code builds. \<^verbatim>\<open>std::map::at\<close> on a missing key throws
  \<^verbatim>\<open>std::out_of_range\<close>, which is \<open>Inl OutOfRange\<close>. A read of \<^verbatim>\<open>std::vector::operator[]\<close>
  past the end raises nothing in C++ (the behaviour is undefined); the model makes it the
  value \<open>Inl UndefinedBehaviour\<close>, so that its absence can be stated and proved.
\<close>

datatype error =
    RuntimeError string
  | OutOfRange
  | UndefinedBehaviour

type_synonym 'a result = "error + 'a"

definition rbind :: "'a result \<Rightarrow> ('a \<Rightarrow> 'b result) \<Rightarrow> 'b result" where
  "rbind m f = (case m of Inl e \<Rightarrow> Inl e | Inr x \<Rightarrow> f x)"

definition is_ok :: "'a result \<Rightarrow> bool" where
  "is_ok m = (case m of Inl e \<Rightarrow> False | Inr x \<Rightarrow> True)"

lemma rbind_Inl [simp]: "rbind (Inl e) f = Inl e"
  by (simp add: rbind_def)

lemma rbind_Inr [simp]: "rbind (Inr x) f = f x"
  by (simp add: rbind_def)

lemma rbind_cong [fundef_cong]:
  assumes "m = m'" and "\<And>x. m' = Inr x \<Longrightarrow> f x = f' x"
  shows "rbind m f = rbind m' f'"
  using assms by (cases m') (simp_all add: rbind_def)

lemma rbind_eq_Inr_iff: "rbind m f = Inr y \<longleftrightarrow> (\<exists>x. m = Inr x \<and> f x = Inr y)"
  by (cases m) simp_all

lemma rbind_eq_Inl_iff:
  "rbind m f = Inl e \<longleftrightarrow> m = Inl e \<or> (\<exists>x. m = Inr x \<and> f x = Inl e)"
  by (cases m) simp_all

lemma rbind_InrE:
  assumes "rbind m f = Inr y"
  obtains x where "m = Inr x" and "f x = Inr y"
  using assms by (auto simp: rbind_eq_Inr_iff)

lemma rbind_assoc: "rbind (rbind m f) g = rbind m (\<lambda>x. rbind (f x) g)"
  by (cases m) simp_all

lemma rbind_return [simp]: "rbind m Inr = m"
  by (cases m) simp_all

lemma is_ok_simps [simp]: "is_ok (Inr x)" "\<not> is_ok (Inl e)"
  by (simp_all add: is_ok_def)

lemma is_ok_iff: "is_ok m \<longleftrightarrow> (\<exists>x. m = Inr x)"
  by (cases m) simp_all

lemma is_ok_rbind: "is_ok (rbind m f) \<longleftrightarrow> (\<exists>x. m = Inr x \<and> is_ok (f x))"
  by (cases m) simp_all

section \<open>Characters\<close>

text \<open>
  \<^verbatim>\<open>std::string\<close> is a sequence of bytes and so is \<open>string\<close>. The classification
  functions are those of the C locale, the only one the program runs in (it never calls
  \<^verbatim>\<open>setlocale\<close>): \<^verbatim>\<open>isspace\<close> holds of space and of the bytes 9 to 13, \<^verbatim>\<open>isalpha\<close> of the
  ASCII letters, \<^verbatim>\<open>isdigit\<close> of the ASCII digits, and \<^verbatim>\<open>tolower\<close> moves the upper-case
  ASCII letters only.
\<close>

abbreviation NUL :: char where "NUL \<equiv> CHR 0x00"
abbreviation newline :: char where "newline \<equiv> CHR 0x0A"

definition code :: "char \<Rightarrow> nat" where
  "code c = of_char c"

definition isspace :: "char \<Rightarrow> bool" where
  "isspace c \<longleftrightarrow> code c = 32 \<or> (9 \<le> code c \<and> code c \<le> 13)"

definition isalpha :: "char \<Rightarrow> bool" where
  "isalpha c \<longleftrightarrow> (65 \<le> code c \<and> code c \<le> 90) \<or> (97 \<le> code c \<and> code c \<le> 122)"

definition isdigit :: "char \<Rightarrow> bool" where
  "isdigit c \<longleftrightarrow> 48 \<le> code c \<and> code c \<le> 57"

definition tolower :: "char \<Rightarrow> char" where
  "tolower c = (if 65 \<le> code c \<and> code c \<le> 90 then char_of (code c + 32) else c)"

lemma code_Char [simp]:
  "code (Char b0 b1 b2 b3 b4 b5 b6 b7) =
     horner_sum of_bool 2 [b0, b1, b2, b3, b4, b5, b6, b7]"
  by (simp add: code_def)

lemma code_less_256: "code c < 256"
  by (cases c) (simp add: of_bool_def)

lemma code_inject [simp]: "code c = code d \<longleftrightarrow> c = d"
  by (simp add: code_def)

lemma not_isspace_NUL [simp]: "\<not> isspace NUL"
  by (simp add: isspace_def)

lemma not_isalpha_NUL [simp]: "\<not> isalpha NUL"
  by (simp add: isalpha_def)

lemma not_isdigit_NUL [simp]: "\<not> isdigit NUL"
  by (simp add: isdigit_def)

lemma isspace_newline [simp]: "isspace newline"
  by (simp add: isspace_def)

lemma isspace_not_alpha: "isspace c \<Longrightarrow> \<not> isalpha c"
  by (auto simp: isspace_def isalpha_def)

lemma isdigit_not_alpha: "isdigit c \<Longrightarrow> \<not> isalpha c"
  by (auto simp: isdigit_def isalpha_def)

lemmas char_class_defs = isspace_def isalpha_def isdigit_def

section \<open>Decimal numerals\<close>

text \<open>
  \<^verbatim>\<open>std::to_string(int)\<close>, which the parser uses for the line number in its messages:
  the decimal digits, most significant first, after a minus sign for a negative number.
\<close>

definition digit_char :: "nat \<Rightarrow> char" where
  "digit_char d = ''0123456789'' ! d"

fun digits :: "nat \<Rightarrow> string" where
  "digits n = (if n < 10 then [digit_char n] else digits (n div 10) @ [digit_char (n mod 10)])"

declare digits.simps [simp del]

definition to_string :: "int \<Rightarrow> string" where
  "to_string i = (if i < 0 then CHR ''-'' # digits (nat (- i)) else digits (nat i))"

lemma digits_small [simp]: "n < 10 \<Longrightarrow> digits n = [digit_char n]"
  by (subst digits.simps) simp

lemma digits_large: "10 \<le> n \<Longrightarrow> digits n = digits (n div 10) @ [digit_char (n mod 10)]"
  by (subst digits.simps) simp

lemma digits_nonempty [simp]: "digits n \<noteq> []"
  by (subst digits.simps) simp

lemma length_digits_pos [simp]: "0 < length (digits n)"
  by (simp add: length_greater_0_conv)

lemma to_string_nonempty [simp]: "to_string i \<noteq> []"
  by (simp add: to_string_def)

lemmas [run_simps] = to_string_def digits_large digit_char_def

section \<open>Lists read by index\<close>

lemma nth_append_length_plus_one [simp]: "(xs @ y # ys) ! length xs = y"
  by simp

lemma last_snoc_conv: "xs \<noteq> [] \<Longrightarrow> last xs = xs ! (length xs - 1)"
  by (rule last_conv_nth)

lemma list_all_snoc [simp]: "list_all P (xs @ [x]) \<longleftrightarrow> list_all P xs \<and> P x"
  by (induction xs) auto

section \<open>Postconditions of calls that may throw\<close>

text \<open>
  \<open>returns r Q\<close>: the call with result \<open>r\<close> throws a \<^verbatim>\<open>std::runtime_error\<close> or returns a value
  that satisfies \<open>Q\<close>; it neither reads outside a vector nor lets \<^verbatim>\<open>std::map::at\<close> throw. The
  rules below move \<open>returns\<close> through the sequencing of calls, so that the simplifier
  computes the precondition of the first call from the postcondition of the last.
\<close>

definition returns :: "'a result \<Rightarrow> ('a \<Rightarrow> bool) \<Rightarrow> bool" where
  "returns r Q \<longleftrightarrow> (case r of Inl e \<Rightarrow> (\<exists>msg. e = RuntimeError msg) | Inr x \<Rightarrow> Q x)"

lemma returns_Inr [simp]: "returns (Inr x) Q \<longleftrightarrow> Q x"
  by (simp add: returns_def)

lemma returns_Inl [simp]: "returns (Inl e) Q \<longleftrightarrow> (\<exists>msg. e = RuntimeError msg)"
  by (simp add: returns_def)

lemma returns_rbind [simp]: "returns (rbind m f) Q \<longleftrightarrow> returns m (\<lambda>x. returns (f x) Q)"
  by (cases m) (simp_all add: returns_def)

lemma returns_if [simp]:
  "returns (if b then r else r') Q \<longleftrightarrow> (b \<longrightarrow> returns r Q) \<and> (\<not> b \<longrightarrow> returns r' Q)"
  by simp

lemma returns_case_prod [simp]:
  "returns (case x of (a, b) \<Rightarrow> f a b) Q \<longleftrightarrow> (case x of (a, b) \<Rightarrow> returns (f a b) Q)"
  by (cases x) simp

lemma returns_mono: "returns r Q \<Longrightarrow> (\<And>x. r = Inr x \<Longrightarrow> Q x \<Longrightarrow> Q' x) \<Longrightarrow> returns r Q'"
  by (cases r) (auto simp: returns_def)

lemma returnsD: "returns r Q \<Longrightarrow> r = Inr x \<Longrightarrow> Q x"
  by (simp add: returns_def)

lemma returns_not_undefined: "returns r Q \<Longrightarrow> r \<noteq> Inl UndefinedBehaviour \<and> r \<noteq> Inl OutOfRange"
  by (auto simp: returns_def)

section \<open>Maps of the standard library\<close>

text \<open>
  A \<^verbatim>\<open>std::map\<close> is a partial function. \<open>map_at\<close> is \<^verbatim>\<open>std::map::at\<close>, which throws
  \<^verbatim>\<open>std::out_of_range\<close> on a key that is not in the map.
\<close>

definition map_at :: "('k \<rightharpoonup> 'v) \<Rightarrow> 'k \<Rightarrow> 'v result" where
  "map_at m k = (case m k of None \<Rightarrow> Inl OutOfRange | Some v \<Rightarrow> Inr v)"

lemma map_at_Some [simp]: "m k = Some v \<Longrightarrow> map_at m k = Inr v"
  by (simp add: map_at_def)

lemma map_at_None [simp]: "m k = None \<Longrightarrow> map_at m k = Inl OutOfRange"
  by (simp add: map_at_def)

lemma map_at_Inr_iff: "map_at m k = Inr v \<longleftrightarrow> m k = Some v"
  by (simp add: map_at_def split: option.splits)

lemma map_at_Inl_iff: "map_at m k = Inl e \<longleftrightarrow> m k = None \<and> e = OutOfRange"
  by (auto simp: map_at_def split: option.splits)

section \<open>Lower case\<close>

lemma code_char_of [simp]: "n < 256 \<Longrightarrow> code (char_of n) = n"
  by (simp add: code_def)

lemma char_of_eq_iff: "n < 256 \<Longrightarrow> char_of n = c \<longleftrightarrow> n = code c"
  by (metis code_char_of code_inject)

lemma eq_char_of_iff: "n < 256 \<Longrightarrow> c = char_of n \<longleftrightarrow> code c = n"
  by (metis code_char_of code_inject)

lemmas [run_simps] = char_of_eq_iff eq_char_of_iff

lemma tolower_idem [simp]: "tolower (tolower c) = tolower c"
  by (simp add: tolower_def)

lemma tolower_lower: "\<not> (65 \<le> code c \<and> code c \<le> 90) \<Longrightarrow> tolower c = c"
  by (auto simp: tolower_def)

end
