(* ===== verification/Slayout_Tokenizer.thy ===== *)
theory Slayout_Tokenizer
  imports Slayout_Prelude
begin

text \<open>
  The lexer of \<^verbatim>\<open>src/src/tokenizer.cpp\<close> and \<^verbatim>\<open>src/include/tokenizer.h\<close>. The class
  \<^verbatim>\<open>Tokenizer\<close> is the record \<open>Tokenizer\<close> with the fields of the class; each method is a
  function from the object to its result and the object after the call. The loops of the
  methods are recursive functions over the object, defined with the measure
  \<open>length (source t) - pos t\<close>. The lemmas give the frame of every method (the source text
  never changes), how far it moves \<open>pos\<close>, the bounds of \<open>pos\<close>, \<open>line\<close> and \<open>column\<close>,
  and the shape of the token list \<open>tokenize\<close> returns.
\<close>

section \<open>Tokens\<close>

datatype TokenType =
    Keyword
  | Identifier
  | String
  | Boolean
  | Equals
  | Dot
  | Semicolon
  | LParen
  | RParen
  | LBrace
  | RBrace
  | Arrow
  | Comma
  | Percent
  | Plus
  | EndOfFile

record Token =
  tok_type :: TokenType
  tok_value :: string
  tok_line :: int
  tok_column :: int

section \<open>The tokenizer object\<close>

record Tokenizer =
  source :: string
  pos :: nat
  line :: int
  column :: int

abbreviation dquote :: char where "dquote \<equiv> CHR 0x22"
abbreviation backslash :: char where "backslash \<equiv> CHR 0x5C"

definition Tokenizer_new :: "string \<Rightarrow> Tokenizer" where
  "Tokenizer_new src = \<lparr>source = src, pos = 0, line = 1, column = 1\<rparr>"

definition remaining :: "Tokenizer \<Rightarrow> nat" where
  "remaining t = length (source t) - pos t"

definition peek :: "Tokenizer \<Rightarrow> char" where
  "peek t = (if pos t < length (source t) then source t ! pos t else NUL)"

definition advance :: "Tokenizer \<Rightarrow> char \<times> Tokenizer" where
  "advance t =
     (if pos t < length (source t) then
        (let c = source t ! pos t in
         (c, if c = newline then t\<lparr>pos := pos t + 1, line := line t + 1, column := 1\<rparr>
             else t\<lparr>pos := pos t + 1, column := column t + 1\<rparr>))
      else (NUL, t))"

definition match :: "char \<Rightarrow> Tokenizer \<Rightarrow> bool \<times> Tokenizer" where
  "match expected t = (if peek t = expected then (True, snd (advance t)) else (False, t))"

definition is_alpha :: "char \<Rightarrow> bool" where
  "is_alpha c = isalpha c"

definition is_digit :: "char \<Rightarrow> bool" where
  "is_digit c = isdigit c"

definition is_alphanumeric :: "char \<Rightarrow> bool" where
  "is_alphanumeric c \<longleftrightarrow> is_alpha c \<or> is_digit c"

definition make_token :: "TokenType \<Rightarrow> string \<Rightarrow> Tokenizer \<Rightarrow> Token" where
  "make_token ty v t = \<lparr>tok_type = ty, tok_value = v, tok_line = line t, tok_column = column t\<rparr>"

subsection \<open>Reading one character\<close>

lemma peek_in_range: "pos t < length (source t) \<Longrightarrow> peek t = source t ! pos t"
  by (simp add: peek_def)

lemma peek_at_end [simp]: "length (source t) \<le> pos t \<Longrightarrow> peek t = NUL"
  by (simp add: peek_def)

lemma peek_not_NUL: "peek t \<noteq> NUL \<Longrightarrow> pos t < length (source t)"
  by (simp add: peek_def split: if_splits)

lemma peek_isspace: "isspace (peek t) \<Longrightarrow> pos t < length (source t)"
  by (rule peek_not_NUL) auto

lemma peek_isalpha: "isalpha (peek t) \<Longrightarrow> pos t < length (source t)"
  by (rule peek_not_NUL) auto

lemma peek_isdigit: "isdigit (peek t) \<Longrightarrow> pos t < length (source t)"
  by (rule peek_not_NUL) auto

lemma peek_is_alphanumeric: "is_alphanumeric (peek t) \<Longrightarrow> pos t < length (source t)"
  by (auto simp: is_alphanumeric_def is_alpha_def is_digit_def
      intro: peek_isalpha peek_isdigit)

lemma peek_eq_char: "peek t = c \<Longrightarrow> c \<noteq> NUL \<Longrightarrow> pos t < length (source t)"
  by (auto intro: peek_not_NUL)

lemma fst_advance [simp]: "fst (advance t) = peek t"
  by (simp add: advance_def peek_def Let_def)

lemma source_advance [simp, frame]: "source (snd (advance t)) = source t"
  by (simp add: advance_def Let_def)

lemma pos_advance:
  "pos (snd (advance t)) = (if pos t < length (source t) then pos t + 1 else pos t)"
  by (simp add: advance_def Let_def)

lemma pos_advance_in_range [simp, progress]:
  "pos t < length (source t) \<Longrightarrow> pos (snd (advance t)) = Suc (pos t)"
  by (simp add: pos_advance)

lemma advance_at_end [simp]: "length (source t) \<le> pos t \<Longrightarrow> advance t = (NUL, t)"
  by (simp add: advance_def)

lemma pos_advance_le [progress]: "pos t \<le> pos (snd (advance t))"
  by (simp add: pos_advance)

lemma pos_advance_bound [progress]:
  "pos t \<le> length (source t) \<Longrightarrow> pos (snd (advance t)) \<le> length (source t)"
  by (simp add: pos_advance)

lemma remaining_advance [simp]:
  "pos t < length (source t) \<Longrightarrow> remaining (snd (advance t)) < remaining t"
  by (simp add: remaining_def pos_advance)

lemma line_advance:
  "line (snd (advance t)) = (if peek t = newline \<and> pos t < length (source t) then line t + 1 else line t)"
  by (simp add: advance_def peek_def Let_def)

lemma column_advance:
  "column (snd (advance t)) =
     (if pos t < length (source t) then (if peek t = newline then 1 else column t + 1)
      else column t)"
  by (simp add: advance_def peek_def Let_def)

lemma advance_eq: "advance t = (peek t, snd (advance t))"
  by (simp add: prod_eq_iff)

lemma source_match [simp, frame]: "source (snd (match c t)) = source t"
  by (simp add: match_def)

lemma pos_match_le [progress]: "pos t \<le> pos (snd (match c t))"
  by (simp add: match_def pos_advance)

lemma fst_match [simp]: "fst (match c t) \<longleftrightarrow> peek t = c"
  by (simp add: match_def)

lemma make_token_sel [simp]:
  "tok_type (make_token ty v t) = ty"
  "tok_value (make_token ty v t) = v"
  "tok_line (make_token ty v t) = line t"
  "tok_column (make_token ty v t) = column t"
  by (simp_all add: make_token_def)

section \<open>Whitespace and comments\<close>

text \<open>
  The inner loop of \<^verbatim>\<open>skip_whitespace_and_comments\<close>, which runs to the end of the line
  of a \<^verbatim>\<open>//\<close> comment, is \<open>skip_comment\<close>; the outer loop is the function of the method's
  name.
\<close>

function skip_comment :: "Tokenizer \<Rightarrow> Tokenizer" where
  "skip_comment t =
     (if peek t \<noteq> newline \<and> peek t \<noteq> NUL then skip_comment (snd (advance t)) else t)"
  by pat_completeness auto
termination
  by (relation "measure remaining") (auto dest: peek_not_NUL)

declare skip_comment.simps [simp del]

lemma source_skip_comment [simp, frame]: "source (skip_comment t) = source t"
  by (induction t rule: skip_comment.induct) (subst skip_comment.simps, simp)

lemma pos_skip_comment_le [progress]: "pos t \<le> pos (skip_comment t)"
proof (induction t rule: skip_comment.induct)
  case (1 t)
  show ?case
  proof (cases "peek t \<noteq> newline \<and> peek t \<noteq> NUL")
    case True
    with 1 have "pos (snd (advance t)) \<le> pos (skip_comment (snd (advance t)))" by simp
    with True show ?thesis
      using pos_advance_le [of t] by (subst skip_comment.simps) simp
  next
    case False
    then show ?thesis by (subst skip_comment.simps) auto
  qed
qed

lemma pos_skip_comment_less [progress]:
  assumes "peek t \<noteq> newline" and "peek t \<noteq> NUL"
  shows "pos t < pos (skip_comment t)"
proof -
  from assms have "pos t < length (source t)" by (simp add: peek_not_NUL)
  then have "pos t < pos (snd (advance t))" by simp
  also have "\<dots> \<le> pos (skip_comment (snd (advance t)))" by (rule pos_skip_comment_le)
  finally show ?thesis using assms by (subst skip_comment.simps) simp
qed

lemma pos_skip_comment_bound [progress]:
  "pos t \<le> length (source t) \<Longrightarrow> pos (skip_comment t) \<le> length (source t)"
  by (induction t rule: skip_comment.induct)
    (subst skip_comment.simps, simp add: pos_advance_bound)

lemma peek_skip_comment: "peek (skip_comment t) = newline \<or> peek (skip_comment t) = NUL"
  by (induction t rule: skip_comment.induct) (subst (1 2) skip_comment.simps, simp)

function skip_whitespace_and_comments :: "Tokenizer \<Rightarrow> Tokenizer" where
  "skip_whitespace_and_comments t =
     (let c = peek t in
      if isspace c then skip_whitespace_and_comments (snd (advance t))
      else if c = CHR ''/'' \<and> pos t + 1 < length (source t)
                \<and> source t ! (pos t + 1) = CHR ''/''
           then skip_whitespace_and_comments (skip_comment t)
      else t)"
  by pat_completeness auto
termination
proof (relation "measure remaining")
  show "wf (measure remaining)" by simp
next
  fix t c
  assume "c = peek t" and "isspace c"
  then show "(snd (advance t), t) \<in> measure remaining"
    by (simp add: peek_isspace)
next
  fix t c
  assume c: "c = peek t" and "\<not> isspace c"
    and sl: "c = CHR ''/'' \<and> pos t + 1 < length (source t) \<and> source t ! (pos t + 1) = CHR ''/''"
  from c sl have "pos t < pos (skip_comment t)"
    by (intro pos_skip_comment_less) auto
  moreover from sl have "pos t < length (source t)" by simp
  ultimately show "(skip_comment t, t) \<in> measure remaining"
    by (simp add: remaining_def)
qed

declare skip_whitespace_and_comments.simps [simp del]

subsection \<open>Moving forward over the same text\<close>

text \<open>
  \<open>moves t t'\<close>: the object \<open>t'\<close> reads the text of \<open>t\<close> at the same or a later
  position, on the same or a later line. Every method relates the object before the call to the object after it in
  this way, which is what bounds the loops. \<open>tokenizer_inv\<close> is what the constructor
  establishes and every method keeps: the position is inside the text or at its end, and
  the line and column counters are at least 1 and at most one more than the position, so
  that they stay below \<open>2^31\<close> for any text shorter than that.
\<close>

definition moves :: "Tokenizer \<Rightarrow> Tokenizer \<Rightarrow> bool" where
  "moves t t' \<longleftrightarrow> source t' = source t \<and> pos t \<le> pos t' \<and> line t \<le> line t'"

definition tokenizer_inv :: "Tokenizer \<Rightarrow> bool" where
  "tokenizer_inv t \<longleftrightarrow>
     pos t \<le> length (source t) \<and> 1 \<le> line t \<and> 1 \<le> column t
     \<and> line t \<le> int (pos t) + 1 \<and> column t \<le> int (pos t) + 1"

lemma moves_refl [simp, intro]: "moves t t"
  by (simp add: moves_def)

lemma moves_trans [trans]: "moves t t' \<Longrightarrow> moves t' t'' \<Longrightarrow> moves t t''"
  by (auto simp: moves_def)

lemma movesD:
  assumes "moves t t'"
  shows "source t' = source t" and "pos t \<le> pos t'" and "line t \<le> line t'"
  using assms by (simp_all add: moves_def)

lemma moves_remaining: "moves t t' \<Longrightarrow> remaining t' \<le> remaining t"
  by (auto simp: moves_def remaining_def)

lemma moves_advance [simp, intro]: "moves t (snd (advance t))"
  by (simp add: moves_def pos_advance_le line_advance)

lemma moves_advance_trans: "moves (snd (advance t)) t' \<Longrightarrow> moves t t'"
  by (rule moves_trans [OF moves_advance])

lemma moves_match [simp, intro]: "moves t (snd (match c t))"
  by (simp add: match_def)

lemma moves_skip_comment [simp, intro]: "moves t (skip_comment t)"
proof (induction t rule: skip_comment.induct)
  case (1 t)
  show ?case
  proof (cases "peek t \<noteq> newline \<and> peek t \<noteq> NUL")
    case True
    with 1 have "moves (snd (advance t)) (skip_comment (snd (advance t)))" by simp
    then have "moves t (skip_comment (snd (advance t)))" by (rule moves_advance_trans)
    with True show ?thesis by (subst skip_comment.simps) simp
  next
    case False
    then show ?thesis by (subst skip_comment.simps) auto
  qed
qed

lemma moves_less:
  assumes "pos t < length (source t)" and "moves (snd (advance t)) t'"
  shows "pos t < pos t'"
  using assms by (auto simp: moves_def)

lemma tokenizer_inv_new [simp]: "tokenizer_inv (Tokenizer_new src)"
  by (simp add: tokenizer_inv_def Tokenizer_new_def)

lemma tokenizer_inv_advance [simp]: "tokenizer_inv t \<Longrightarrow> tokenizer_inv (snd (advance t))"
  by (auto simp: tokenizer_inv_def advance_def Let_def)

lemma tokenizer_inv_match [simp]: "tokenizer_inv t \<Longrightarrow> tokenizer_inv (snd (match c t))"
  by (simp add: match_def)

lemma tokenizer_inv_skip_comment [simp]:
  "tokenizer_inv t \<Longrightarrow> tokenizer_inv (skip_comment t)"
  by (induction t rule: skip_comment.induct) (subst skip_comment.simps, simp)

lemma tokenizer_invD:
  assumes "tokenizer_inv t"
  shows "pos t \<le> length (source t)" and "1 \<le> line t" and "1 \<le> column t"
    and "line t \<le> int (pos t) + 1" and "column t \<le> int (pos t) + 1"
  using assms by (simp_all add: tokenizer_inv_def)

subsection \<open>The outer loop\<close>

definition at_comment :: "Tokenizer \<Rightarrow> bool" where
  "at_comment t \<longleftrightarrow>
     peek t = CHR ''/'' \<and> pos t + 1 < length (source t) \<and> source t ! (pos t + 1) = CHR ''/''"

lemma at_comment_not_space: "at_comment t \<Longrightarrow> \<not> isspace (peek t)"
  by (simp add: at_comment_def isspace_def)

lemma at_comment_peek: "at_comment t \<Longrightarrow> peek t \<noteq> newline \<and> peek t \<noteq> NUL"
  by (simp add: at_comment_def)

lemma skip_whitespace_and_comments_stop:
  "\<not> isspace (peek t) \<Longrightarrow> \<not> at_comment t \<Longrightarrow> skip_whitespace_and_comments t = t"
  by (subst skip_whitespace_and_comments.simps) (auto simp: Let_def at_comment_def)

lemma skip_whitespace_and_comments_space:
  "isspace (peek t) \<Longrightarrow>
     skip_whitespace_and_comments t = skip_whitespace_and_comments (snd (advance t))"
  by (subst skip_whitespace_and_comments.simps) (simp add: Let_def)

lemma skip_whitespace_and_comments_comment:
  "at_comment t \<Longrightarrow>
     skip_whitespace_and_comments t = skip_whitespace_and_comments (skip_comment t)"
  by (subst skip_whitespace_and_comments.simps)
    (auto simp: Let_def at_comment_def isspace_def)

lemmas skip_whitespace_and_comments_unfold =
  skip_whitespace_and_comments_stop skip_whitespace_and_comments_space
  skip_whitespace_and_comments_comment

text \<open>The induction rule of the loop, one case per branch of its body.\<close>

lemma skip_whitespace_and_comments_induct [case_names stop space comment]:
  assumes stop: "\<And>t. \<not> isspace (peek t) \<Longrightarrow> \<not> at_comment t \<Longrightarrow> P t"
    and space: "\<And>t. isspace (peek t) \<Longrightarrow> P (snd (advance t)) \<Longrightarrow> P t"
    and comment: "\<And>t. at_comment t \<Longrightarrow> P (skip_comment t) \<Longrightarrow> P t"
  shows "P t"
proof (induction t rule: skip_whitespace_and_comments.induct)
  case (1 t)
  show ?case
  proof (cases "isspace (peek t)")
    case True
    with 1(1) show ?thesis by (auto intro: space)
  next
    case False
    show ?thesis
    proof (cases "at_comment t")
      case True
      with False 1(2) show ?thesis by (auto intro: comment simp: at_comment_def)
    next
      case False
      with \<open>\<not> isspace (peek t)\<close> show ?thesis by (rule stop)
    qed
  qed
qed

lemma moves_skip_whitespace_and_comments [simp, intro]:
  "moves t (skip_whitespace_and_comments t)"
proof (induction t rule: skip_whitespace_and_comments_induct)
  case (stop t)
  then show ?case by (simp add: skip_whitespace_and_comments_stop)
next
  case (space t)
  from space(2) have "moves t (skip_whitespace_and_comments (snd (advance t)))"
    by (rule moves_advance_trans)
  with space(1) show ?case by (simp add: skip_whitespace_and_comments_space)
next
  case (comment t)
  from moves_skip_comment comment(2) have "moves t (skip_whitespace_and_comments (skip_comment t))"
    by (rule moves_trans)
  with comment(1) show ?case by (simp add: skip_whitespace_and_comments_comment)
qed

lemma tokenizer_inv_skip_whitespace_and_comments [simp]:
  "tokenizer_inv t \<Longrightarrow> tokenizer_inv (skip_whitespace_and_comments t)"
  by (induction t rule: skip_whitespace_and_comments_induct)
    (simp_all add: skip_whitespace_and_comments_unfold)

text \<open>Where the loop stops, the next character is neither white space nor the start of a comment.\<close>

lemma peek_skip_whitespace_and_comments [simp]:
  "\<not> isspace (peek (skip_whitespace_and_comments t))"
  by (induction t rule: skip_whitespace_and_comments_induct)
    (simp_all add: skip_whitespace_and_comments_unfold)

lemma not_at_comment_skip_whitespace_and_comments [simp]:
  "\<not> at_comment (skip_whitespace_and_comments t)"
  by (induction t rule: skip_whitespace_and_comments_induct)
    (simp_all add: skip_whitespace_and_comments_unfold)

lemma skip_whitespace_and_comments_idem [simp]:
  "skip_whitespace_and_comments (skip_whitespace_and_comments t) = skip_whitespace_and_comments t"
  by (simp add: skip_whitespace_and_comments_stop)

section \<open>String literals\<close>

text \<open>
  \<^verbatim>\<open>Tokenizer::string\<close> skips the opening quote, collects characters up to the next
  unescaped quote or the end of the text (\<open>string_loop\<close>, the \<^verbatim>\<open>while\<close> of the method),
  and fails unless a quote follows. A backslash is dropped and the character after it is
  taken as it is; at the end of the text that character is the \<open>NUL\<close> that \<^verbatim>\<open>advance\<close>
  returns there.
\<close>

lemma remaining_advance_le [simp]: "remaining (snd (advance t)) \<le> remaining t"
  by (simp add: moves_remaining)

lemma remaining_advance_twice:
  "pos t < length (source t) \<Longrightarrow> remaining (snd (advance (snd (advance t)))) < remaining t"
  by (rule le_less_trans [OF remaining_advance_le remaining_advance])

function string_loop :: "Tokenizer \<Rightarrow> string \<Rightarrow> string \<times> Tokenizer" where
  "string_loop t v =
     (if peek t \<noteq> dquote \<and> peek t \<noteq> NUL then
        (if peek t = backslash then
           (let t1 = snd (advance t) in
            string_loop (snd (advance t1)) (v @ [fst (advance t1)]))
         else string_loop (snd (advance t)) (v @ [fst (advance t)]))
      else (v, t))"
  by pat_completeness auto
termination
proof (relation "measure (\<lambda>(t, v). remaining t)")
  fix t :: Tokenizer and v :: string and t1
  assume more: "peek t \<noteq> dquote \<and> peek t \<noteq> NUL"
  then have in_range: "pos t < length (source t)" by (simp add: peek_not_NUL)
  then show "((snd (advance t), v @ [fst (advance t)]), t, v) \<in> measure (\<lambda>(t, v). remaining t)"
    by simp
  assume "t1 = snd (advance t)"
  with in_range
  show "((snd (advance t1), v @ [fst (advance t1)]), t, v) \<in> measure (\<lambda>(t, v). remaining t)"
    by (simp add: remaining_advance_twice)
qed simp

declare string_loop.simps [simp del]

definition string_tok :: "Tokenizer \<Rightarrow> (Token \<times> Tokenizer) result" where
  "string_tok t =
     (let t1 = snd (advance t);
          (v, t2) = string_loop t1 []
      in if peek t2 = dquote then
           (let t3 = snd (advance t2) in Inr (make_token String v t3, t3))
         else Inl (RuntimeError ''Unterminated string''))"

lemma string_loop_stop:
  "peek t = dquote \<or> peek t = NUL \<Longrightarrow> string_loop t v = (v, t)"
  by (subst string_loop.simps) auto

lemma string_loop_escape:
  "peek t = backslash \<Longrightarrow>
     string_loop t v =
       string_loop (snd (advance (snd (advance t)))) (v @ [peek (snd (advance t))])"
  by (subst string_loop.simps) (simp add: Let_def)

lemma string_loop_char:
  "peek t \<noteq> dquote \<Longrightarrow> peek t \<noteq> NUL \<Longrightarrow> peek t \<noteq> backslash \<Longrightarrow>
     string_loop t v = string_loop (snd (advance t)) (v @ [peek t])"
  by (subst string_loop.simps) simp

lemmas string_loop_unfold = string_loop_stop string_loop_escape string_loop_char

lemma string_loop_induct [case_names stop escape char]:
  assumes stop: "\<And>t v. peek t = dquote \<or> peek t = NUL \<Longrightarrow> P t v"
    and escape: "\<And>t v. peek t = backslash \<Longrightarrow>
        P (snd (advance (snd (advance t)))) (v @ [peek (snd (advance t))]) \<Longrightarrow> P t v"
    and char: "\<And>t v. peek t \<noteq> dquote \<Longrightarrow> peek t \<noteq> NUL \<Longrightarrow> peek t \<noteq> backslash \<Longrightarrow>
        P (snd (advance t)) (v @ [peek t]) \<Longrightarrow> P t v"
  shows "P t v"
proof (induction t v rule: string_loop.induct)
  case (1 t v)
  show ?case
  proof (cases "peek t = dquote \<or> peek t = NUL")
    case True
    then show ?thesis by (rule stop)
  next
    case False
    show ?thesis
    proof (cases "peek t = backslash")
      case True
      with False 1(1) show ?thesis by (auto intro: escape)
    next
      case False
      with \<open>\<not> (peek t = dquote \<or> peek t = NUL)\<close> 1(2) show ?thesis
        by (auto intro: char)
    qed
  qed
qed

lemma moves_string_loop [simp, intro]: "moves t (snd (string_loop t v))"
proof (induction t v rule: string_loop_induct)
  case (stop t v)
  then show ?case by (simp add: string_loop_stop)
next
  case (escape t v)
  from escape(2) have "moves (snd (advance t)) (snd (string_loop (snd (advance (snd (advance t))))
      (v @ [peek (snd (advance t))])))"
    by (rule moves_advance_trans)
  then have "moves t (snd (string_loop (snd (advance (snd (advance t))))
      (v @ [peek (snd (advance t))])))"
    by (rule moves_advance_trans)
  with escape(1) show ?case by (simp add: string_loop_escape)
next
  case (char t v)
  from char(4) have "moves t (snd (string_loop (snd (advance t)) (v @ [peek t])))"
    by (rule moves_advance_trans)
  with char(1-3) show ?case by (simp add: string_loop_char)
qed

lemma tokenizer_inv_string_loop [simp]:
  "tokenizer_inv t \<Longrightarrow> tokenizer_inv (snd (string_loop t v))"
  by (induction t v rule: string_loop_induct) (simp_all add: string_loop_unfold)

lemma peek_string_loop:
  "peek (snd (string_loop t v)) = dquote \<or> peek (snd (string_loop t v)) = NUL"
  by (induction t v rule: string_loop_induct) (simp_all add: string_loop_unfold)

text \<open>The characters collected so far are a prefix of the result.\<close>

lemma fst_string_loop_append: "fst (string_loop t (v @ w)) = v @ fst (string_loop t w)"
proof (induction t w arbitrary: v rule: string_loop_induct)
  case (stop t w)
  then show ?case by (simp add: string_loop_stop)
next
  case (escape t w)
  from escape(2) [of v] escape(1) show ?case by (simp add: string_loop_escape)
next
  case (char t w)
  from char(4) [of v] char(1-3) show ?case by (simp add: string_loop_char)
qed

lemma fst_string_loop: "fst (string_loop t v) = v @ fst (string_loop t [])"
  using fst_string_loop_append [of t v "[]"] by simp

subsection \<open>The string token\<close>

lemma string_tok_eq:
  "string_tok t =
     (let t2 = snd (string_loop (snd (advance t)) []) in
      if peek t2 = dquote
      then Inr (make_token String (fst (string_loop (snd (advance t)) [])) (snd (advance t2)),
                snd (advance t2))
      else Inl (RuntimeError ''Unterminated string''))"
  by (simp add: string_tok_def Let_def split: prod.split)

lemma string_tok_InrD:
  assumes "string_tok t = Inr (tok, t')"
  shows "tok = make_token String (fst (string_loop (snd (advance t)) [])) t'"
    and "t' = snd (advance (snd (string_loop (snd (advance t)) [])))"
    and "peek (snd (string_loop (snd (advance t)) [])) = dquote"
  using assms by (auto simp: string_tok_eq Let_def split: if_splits)

lemma string_tok_InlD: "string_tok t = Inl e \<Longrightarrow> e = RuntimeError ''Unterminated string''"
  by (auto simp: string_tok_eq Let_def split: if_splits)

lemma string_tok_Inl_iff:
  "string_tok t = Inl e \<longleftrightarrow>
     e = RuntimeError ''Unterminated string''
     \<and> peek (snd (string_loop (snd (advance t)) [])) = NUL"
  using peek_string_loop [of "snd (advance t)" "[]"]
  by (auto simp: string_tok_eq Let_def)

lemma moves_string_tok:
  assumes "string_tok t = Inr (tok, t')"
  shows "moves t t'"
proof -
  have "moves t (snd (advance t))" by simp
  also have "moves \<dots> (snd (string_loop (snd (advance t)) []))" by simp
  also have "moves \<dots> (snd (advance (snd (string_loop (snd (advance t)) []))))" by simp
  finally show ?thesis using string_tok_InrD(2) [OF assms] by simp
qed

lemma pos_string_tok [progress]:
  assumes "string_tok t = Inr (tok, t')"
  shows "pos t < pos t'"
proof -
  let ?t2 = "snd (string_loop (snd (advance t)) [])"
  have "moves t ?t2" by (rule moves_advance_trans) simp
  then have "pos t \<le> pos ?t2" by (rule movesD)
  moreover from string_tok_InrD(3) [OF assms] have "pos ?t2 < length (source ?t2)"
    by (rule peek_eq_char) simp
  ultimately show ?thesis by (simp add: string_tok_InrD(2) [OF assms])
qed

lemma tokenizer_inv_string_tok:
  "string_tok t = Inr (tok, t') \<Longrightarrow> tokenizer_inv t \<Longrightarrow> tokenizer_inv t'"
  using string_tok_InrD(2) [of t tok t'] by simp

lemma tok_type_string_tok [simp]: "string_tok t = Inr (tok, t') \<Longrightarrow> tok_type tok = String"
  using string_tok_InrD(1) [of t tok t'] by simp

section \<open>Identifiers, reserved_words and booleans\<close>

definition is_ident_char :: "char \<Rightarrow> bool" where
  "is_ident_char c \<longleftrightarrow> is_alphanumeric c \<or> c = CHR ''_''"

lemma not_is_ident_char_NUL [simp]: "\<not> is_ident_char NUL"
  by (simp add: is_ident_char_def is_alphanumeric_def is_alpha_def is_digit_def)

lemma peek_is_ident_char: "is_ident_char (peek t) \<Longrightarrow> pos t < length (source t)"
  by (rule peek_not_NUL) auto

lemma isalpha_is_ident_char: "isalpha c \<Longrightarrow> is_ident_char c"
  by (simp add: is_ident_char_def is_alphanumeric_def is_alpha_def)

function ident_loop :: "Tokenizer \<Rightarrow> string \<Rightarrow> string \<times> Tokenizer" where
  "ident_loop t v =
     (if is_alphanumeric (peek t) \<or> peek t = CHR ''_''
      then ident_loop (snd (advance t)) (v @ [fst (advance t)])
      else (v, t))"
  by pat_completeness auto
termination
proof (relation "measure (\<lambda>(t, v). remaining t)")
  fix t :: Tokenizer and v :: string
  assume "is_alphanumeric (peek t) \<or> peek t = CHR ''_''"
  then have "is_ident_char (peek t)" by (simp add: is_ident_char_def)
  then have "pos t < length (source t)" by (rule peek_is_ident_char)
  then show "((snd (advance t), v @ [fst (advance t)]), t, v) \<in> measure (\<lambda>(t, v). remaining t)"
    by simp
qed simp

declare ident_loop.simps [simp del]

definition reserved_words :: "string list" where
  "reserved_words =
     [''macrodef'', ''Macro'', ''lazy'', ''boolean'', ''if'', ''print'',
      ''set_glsl'', ''set_hlsl'', ''set_msl'', ''set_spirv'',
      ''read_glsl'', ''read_hlsl'', ''read_msl'', ''read_spirv'',
      ''set_default'', ''read_default'', ''generate_all'', ''generate_select'', ''SYSTEM'']"

definition identifier_or_keyword :: "Tokenizer \<Rightarrow> Token \<times> Tokenizer" where
  "identifier_or_keyword t =
     (let (v, t1) = ident_loop t [] in
      if v \<in> set reserved_words then (make_token Keyword v t1, t1)
      else if v = ''TRUE'' \<or> v = ''FALSE'' then (make_token Boolean v t1, t1)
      else (make_token Identifier v t1, t1))"

lemma ident_loop_stop: "\<not> is_ident_char (peek t) \<Longrightarrow> ident_loop t v = (v, t)"
  by (subst ident_loop.simps) (simp add: is_ident_char_def)

lemma ident_loop_step:
  "is_ident_char (peek t) \<Longrightarrow> ident_loop t v = ident_loop (snd (advance t)) (v @ [peek t])"
  by (subst ident_loop.simps) (simp add: is_ident_char_def)

lemmas ident_loop_unfold = ident_loop_stop ident_loop_step

lemma ident_loop_induct [case_names stop step]:
  assumes stop: "\<And>t v. \<not> is_ident_char (peek t) \<Longrightarrow> P t v"
    and step: "\<And>t v. is_ident_char (peek t) \<Longrightarrow> P (snd (advance t)) (v @ [peek t]) \<Longrightarrow> P t v"
  shows "P t v"
proof (induction t v rule: ident_loop.induct)
  case (1 t v)
  show ?case
  proof (cases "is_ident_char (peek t)")
    case True
    with 1 show ?thesis by (auto intro: step simp: is_ident_char_def)
  next
    case False
    then show ?thesis by (rule stop)
  qed
qed

lemma moves_ident_loop [simp, intro]: "moves t (snd (ident_loop t v))"
proof (induction t v rule: ident_loop_induct)
  case (stop t v)
  then show ?case by (simp add: ident_loop_stop)
next
  case (step t v)
  from step(2) have "moves t (snd (ident_loop (snd (advance t)) (v @ [peek t])))"
    by (rule moves_advance_trans)
  with step(1) show ?case by (simp add: ident_loop_step)
qed

lemma tokenizer_inv_ident_loop [simp]:
  "tokenizer_inv t \<Longrightarrow> tokenizer_inv (snd (ident_loop t v))"
  by (induction t v rule: ident_loop_induct) (simp_all add: ident_loop_unfold)

lemma peek_ident_loop [simp]: "\<not> is_ident_char (peek (snd (ident_loop t v)))"
  by (induction t v rule: ident_loop_induct) (simp_all add: ident_loop_unfold)

lemma pos_ident_loop [progress]:
  assumes "is_ident_char (peek t)"
  shows "pos t < pos (snd (ident_loop t v))"
proof -
  from assms have "pos t < length (source t)" by (rule peek_is_ident_char)
  moreover have "moves (snd (advance t)) (snd (ident_loop (snd (advance t)) (v @ [peek t])))"
    by simp
  ultimately have "pos t < pos (snd (ident_loop (snd (advance t)) (v @ [peek t])))"
    by (rule moves_less)
  with assms show ?thesis by (simp add: ident_loop_step)
qed

lemma fst_ident_loop_append: "fst (ident_loop t (v @ w)) = v @ fst (ident_loop t w)"
proof (induction t w arbitrary: v rule: ident_loop_induct)
  case (stop t w)
  then show ?case by (simp add: ident_loop_stop)
next
  case (step t w)
  from step(2) [of v] step(1) show ?case by (simp add: ident_loop_step)
qed

lemma fst_ident_loop: "fst (ident_loop t v) = v @ fst (ident_loop t [])"
  using fst_ident_loop_append [of t v "[]"] by simp

text \<open>The characters of the run are identifier characters, and there is one if the first is.\<close>

lemma ident_loop_chars:
  "list_all is_ident_char v \<Longrightarrow> list_all is_ident_char (fst (ident_loop t v))"
  by (induction t v rule: ident_loop_induct) (simp_all add: ident_loop_unfold)

lemma ident_loop_first:
  "is_ident_char (peek t) \<Longrightarrow> fst (ident_loop t []) = peek t # fst (ident_loop (snd (advance t)) [])"
  using fst_ident_loop [of "snd (advance t)" "[peek t]"] by (simp add: ident_loop_step)

subsection \<open>The identifier token\<close>

definition classify :: "string \<Rightarrow> TokenType" where
  "classify v =
     (if v \<in> set reserved_words then Keyword
      else if v = ''TRUE'' \<or> v = ''FALSE'' then Boolean
      else Identifier)"

lemma identifier_or_keyword_eq:
  "identifier_or_keyword t =
     (make_token (classify (fst (ident_loop t []))) (fst (ident_loop t [])) (snd (ident_loop t [])),
      snd (ident_loop t []))"
  by (simp add: identifier_or_keyword_def classify_def split: prod.split)

lemma snd_identifier_or_keyword [simp]:
  "snd (identifier_or_keyword t) = snd (ident_loop t [])"
  by (simp add: identifier_or_keyword_eq)

lemma tok_identifier_or_keyword [simp]:
  "tok_value (fst (identifier_or_keyword t)) = fst (ident_loop t [])"
  "tok_type (fst (identifier_or_keyword t)) = classify (fst (ident_loop t []))"
  "tok_line (fst (identifier_or_keyword t)) = line (snd (ident_loop t []))"
  "tok_column (fst (identifier_or_keyword t)) = column (snd (ident_loop t []))"
  by (simp_all add: identifier_or_keyword_eq)

lemma classify_cases: "classify v = Keyword \<or> classify v = Boolean \<or> classify v = Identifier"
  by (simp add: classify_def)

lemma classify_Keyword [simp]: "classify v = Keyword \<longleftrightarrow> v \<in> set reserved_words"
  by (simp add: classify_def)

lemma classify_Boolean [simp]: "classify v = Boolean \<longleftrightarrow> v = ''TRUE'' \<or> v = ''FALSE''"
  by (auto simp: classify_def reserved_words_def)

lemma classify_Identifier [simp]:
  "classify v = Identifier \<longleftrightarrow> v \<notin> set reserved_words \<and> v \<noteq> ''TRUE'' \<and> v \<noteq> ''FALSE''"
  by (simp add: classify_def)

section \<open>Symbols\<close>

definition symbol :: "Tokenizer \<Rightarrow> (Token \<times> Tokenizer) result" where
  "symbol t =
     (let c = fst (advance t); t1 = snd (advance t) in
      if c = CHR ''='' then Inr (make_token Equals ''='' t1, t1)
      else if c = CHR ''.'' then Inr (make_token Dot ''.'' t1, t1)
      else if c = CHR '';'' then Inr (make_token Semicolon '';'' t1, t1)
      else if c = CHR ''('' then Inr (make_token LParen ''('' t1, t1)
      else if c = CHR '')'' then Inr (make_token RParen '')'' t1, t1)
      else if c = CHR ''{'' then Inr (make_token LBrace ''{'' t1, t1)
      else if c = CHR ''}'' then Inr (make_token RBrace ''}'' t1, t1)
      else if c = CHR '','' then Inr (make_token Comma '','' t1, t1)
      else if c = CHR ''%'' then Inr (make_token Percent ''%'' t1, t1)
      else if c = CHR ''-'' \<and> fst (match (CHR ''>'') t1)
           then (let t2 = snd (match (CHR ''>'') t1) in Inr (make_token Arrow ''->'' t2, t2))
      else Inl (RuntimeError (''Unexpected character: '' @ [c])))"

text \<open>The ten lexemes of \<^verbatim>\<open>symbol\<close>: the token type and the text of each.\<close>

definition symbol_lexemes :: "(TokenType \<times> string) list" where
  "symbol_lexemes =
     [(Equals, ''=''), (Dot, ''.''), (Semicolon, '';''), (LParen, ''(''), (RParen, '')''),
      (LBrace, ''{''), (RBrace, ''}''), (Comma, '',''), (Percent, ''%''), (Arrow, ''->'')]"

definition single_symbol :: "char \<Rightarrow> TokenType option" where
  "single_symbol c =
     (if c = CHR ''='' then Some Equals
      else if c = CHR ''.'' then Some Dot
      else if c = CHR '';'' then Some Semicolon
      else if c = CHR ''('' then Some LParen
      else if c = CHR '')'' then Some RParen
      else if c = CHR ''{'' then Some LBrace
      else if c = CHR ''}'' then Some RBrace
      else if c = CHR '','' then Some Comma
      else if c = CHR ''%'' then Some Percent
      else None)"

lemma symbol_eq:
  "symbol t =
     (case single_symbol (peek t) of
        Some ty \<Rightarrow> Inr (make_token ty [peek t] (snd (advance t)), snd (advance t))
      | None \<Rightarrow>
          if peek t = CHR ''-'' \<and> peek (snd (advance t)) = CHR ''>''
          then Inr (make_token Arrow ''->'' (snd (advance (snd (advance t)))),
                    snd (advance (snd (advance t))))
          else Inl (RuntimeError (''Unexpected character: '' @ [peek t])))"
  by (simp add: symbol_def single_symbol_def Let_def match_def)

lemma single_symbol_SomeD:
  assumes "single_symbol c = Some ty"
  shows "(ty, [c]) \<in> set symbol_lexemes" and "c \<noteq> NUL" and "ty \<noteq> EndOfFile" and "ty \<noteq> Plus"
  using assms by (simp_all add: single_symbol_def symbol_lexemes_def split: if_splits)

lemma symbol_InrE [consumes 1, case_names single arrow]:
  assumes "symbol t = Inr (tok, t')"
  obtains ty where "single_symbol (peek t) = Some ty"
      and "tok = make_token ty [peek t] t'" and "t' = snd (advance t)"
    | "peek t = CHR ''-''" and "peek (snd (advance t)) = CHR ''>''"
      and "tok = make_token Arrow ''->'' t'" and "t' = snd (advance (snd (advance t)))"
proof (cases "single_symbol (peek t)")
  case (Some ty)
  with assms have "tok = make_token ty [peek t] t'" and "t' = snd (advance t)"
    by (auto simp: symbol_eq)
  with Some show ?thesis by (rule that(1))
next
  case None
  with assms have "peek t = CHR ''-'' \<and> peek (snd (advance t)) = CHR ''>''"
    by (simp add: symbol_eq split: if_splits)
  moreover from this None assms
  have "tok = make_token Arrow ''->'' t'" and "t' = snd (advance (snd (advance t)))"
    by (auto simp: symbol_eq)
  ultimately show ?thesis by (intro that(2)) simp_all
qed

lemma symbol_InrD:
  assumes ok: "symbol t = Inr (tok, t')"
  shows "(tok_type tok, tok_value tok) \<in> set symbol_lexemes"
    and "tok_line tok = line t'" and "tok_column tok = column t'"
    and "t' = snd (advance t) \<or> t' = snd (advance (snd (advance t)))"
    and "peek t \<noteq> NUL"
    and "tok_type tok \<noteq> EndOfFile" and "tok_type tok \<noteq> Plus"
proof -
  from ok show "(tok_type tok, tok_value tok) \<in> set symbol_lexemes"
  proof (cases rule: symbol_InrE)
    case (single ty)
    then show ?thesis using single_symbol_SomeD(1) [of "peek t" ty] by simp
  next
    case arrow
    then show ?thesis by (simp add: symbol_lexemes_def)
  qed
  from ok show "tok_line tok = line t'" and "tok_column tok = column t'"
    by (cases rule: symbol_InrE; simp)+
  from ok show "t' = snd (advance t) \<or> t' = snd (advance (snd (advance t)))"
    by (cases rule: symbol_InrE) simp_all
  from ok show "peek t \<noteq> NUL"
    by (cases rule: symbol_InrE) (auto dest: single_symbol_SomeD(2))
  from ok show "tok_type tok \<noteq> EndOfFile" and "tok_type tok \<noteq> Plus"
    by (cases rule: symbol_InrE; auto dest: single_symbol_SomeD(3,4))+
qed

lemma symbol_InlD:
  assumes "symbol t = Inl e"
  shows "e = RuntimeError (''Unexpected character: '' @ [peek t])"
proof (cases "single_symbol (peek t)")
  case None
  with assms show ?thesis by (simp add: symbol_eq split: if_splits)
next
  case (Some ty)
  with assms show ?thesis by (simp add: symbol_eq)
qed

lemma symbol_Inl_iff:
  "(\<exists>e. symbol t = Inl e) \<longleftrightarrow>
     single_symbol (peek t) = None
     \<and> \<not> (peek t = CHR ''-'' \<and> peek (snd (advance t)) = CHR ''>'')"
  by (cases "single_symbol (peek t)") (simp_all add: symbol_eq)

lemma moves_symbol:
  assumes "symbol t = Inr (tok, t')"
  shows "moves t t'"
  using symbol_InrD(4) [OF assms] moves_advance_trans [of t "snd (advance (snd (advance t)))"]
  by auto

lemma pos_symbol [progress]:
  assumes "symbol t = Inr (tok, t')"
  shows "pos t < pos t'"
proof -
  from symbol_InrD(5) [OF assms] have "pos t < length (source t)" by (rule peek_not_NUL)
  then have "pos t < pos (snd (advance t))" by simp
  moreover have "pos (snd (advance t)) \<le> pos (snd (advance (snd (advance t))))"
    by (rule pos_advance_le)
  ultimately show ?thesis using symbol_InrD(4) [OF assms] by auto
qed

lemma tokenizer_inv_symbol:
  "symbol t = Inr (tok, t') \<Longrightarrow> tokenizer_inv t \<Longrightarrow> tokenizer_inv t'"
  using symbol_InrD(4) [of t tok t'] by auto

section \<open>The token loop\<close>

text \<open>
  The body of the \<^verbatim>\<open>while\<close> of \<^verbatim>\<open>Tokenizer::tokenize\<close> chooses the scanner from the
  first character (\<open>next_token\<close>) after white space and comments are skipped; the loop is
  \<open>tokenize_loop\<close>, which ends at the end of the text or at a \<open>NUL\<close> character, and
  \<open>tokenize\<close> appends the \<open>EndOfFile\<close> token.
\<close>

definition next_token :: "Tokenizer \<Rightarrow> (Token \<times> Tokenizer) result" where
  "next_token t =
     (let c = peek t in
      if isalpha c \<or> c = CHR ''_'' then Inr (identifier_or_keyword t)
      else if c = dquote then string_tok t
      else symbol t)"

lemma next_token_ident:
  "isalpha (peek t) \<or> peek t = CHR ''_'' \<Longrightarrow> next_token t = Inr (identifier_or_keyword t)"
  by (simp add: next_token_def)

lemma next_token_string: "peek t = dquote \<Longrightarrow> next_token t = string_tok t"
  by (simp add: next_token_def isalpha_def)

lemma next_token_symbol:
  "\<not> isalpha (peek t) \<Longrightarrow> peek t \<noteq> CHR ''_'' \<Longrightarrow> peek t \<noteq> dquote \<Longrightarrow>
     next_token t = symbol t"
  by (simp add: next_token_def)

lemma next_token_cases [consumes 1, case_names ident string symbol]:
  assumes "next_token t = Inr (tok, t')"
  obtains "isalpha (peek t) \<or> peek t = CHR ''_''" and "identifier_or_keyword t = (tok, t')"
    | "peek t = dquote" and "string_tok t = Inr (tok, t')"
    | "\<not> isalpha (peek t)" and "peek t \<noteq> CHR ''_''" and "peek t \<noteq> dquote"
      and "symbol t = Inr (tok, t')"
  using assms by (auto simp: next_token_def Let_def split: if_splits)

lemma moves_next_token:
  assumes "next_token t = Inr (tok, t')"
  shows "moves t t'"
  using assms
proof (cases rule: next_token_cases)
  case ident
  from ident(2) have "t' = snd (ident_loop t [])" by (simp add: identifier_or_keyword_eq)
  then show ?thesis by simp
qed (auto intro: moves_string_tok moves_symbol)

lemma pos_next_token [progress]:
  assumes "next_token t = Inr (tok, t')"
  shows "pos t < pos t'"
  using assms
proof (cases rule: next_token_cases)
  case ident
  from ident(1) have "is_ident_char (peek t)"
    by (auto simp: is_ident_char_def is_alphanumeric_def is_alpha_def)
  then have "pos t < pos (snd (ident_loop t []))" by (rule pos_ident_loop)
  with ident(2) show ?thesis by (simp add: identifier_or_keyword_eq)
qed (auto intro: pos_string_tok pos_symbol)

lemma tokenizer_inv_next_token:
  assumes "next_token t = Inr (tok, t')" and "tokenizer_inv t"
  shows "tokenizer_inv t'"
  using assms(1)
proof (cases rule: next_token_cases)
  case ident
  from ident(2) have "t' = snd (ident_loop t [])" by (simp add: identifier_or_keyword_eq)
  with assms(2) show ?thesis by simp
qed (use assms(2) in \<open>auto intro: tokenizer_inv_string_tok tokenizer_inv_symbol\<close>)

lemma remaining_next_token:
  assumes "next_token (skip_whitespace_and_comments t) = Inr (tok, t')"
    and "pos t < length (source t)"
  shows "remaining t' < remaining t"
proof -
  let ?t1 = "skip_whitespace_and_comments t"
  have "moves t ?t1" by simp
  moreover from assms(1) have "moves ?t1 t'" by (rule moves_next_token)
  moreover from assms(1) have "pos ?t1 < pos t'" by (rule pos_next_token)
  ultimately show ?thesis using assms(2) by (auto simp: moves_def remaining_def)
qed

function tokenize_loop :: "Tokenizer \<Rightarrow> Token list \<Rightarrow> (Token list \<times> Tokenizer) result" where
  "tokenize_loop t tokens =
     (if pos t < length (source t) then
        (let t1 = skip_whitespace_and_comments t in
         if peek t1 = NUL then Inr (tokens, t1)
         else rbind (next_token t1) (\<lambda>(tok, t2). tokenize_loop t2 (tokens @ [tok])))
      else Inr (tokens, t))"
  by pat_completeness auto
termination
  by (relation "measure (\<lambda>(t, tokens). remaining t)") (auto intro: remaining_next_token)

declare tokenize_loop.simps [simp del]

definition tokenize :: "Tokenizer \<Rightarrow> (Token list \<times> Tokenizer) result" where
  "tokenize t =
     rbind (tokenize_loop t [])
       (\<lambda>(tokens, t'). Inr (tokens @ [make_token EndOfFile [] t'], t'))"

subsection \<open>One round of the loop\<close>

lemma tokenize_loop_end:
  "length (source t) \<le> pos t \<Longrightarrow> tokenize_loop t tokens = Inr (tokens, t)"
  by (subst tokenize_loop.simps) simp

lemma tokenize_loop_step:
  "pos t < length (source t) \<Longrightarrow>
     tokenize_loop t tokens =
       (if peek (skip_whitespace_and_comments t) = NUL
        then Inr (tokens, skip_whitespace_and_comments t)
        else rbind (next_token (skip_whitespace_and_comments t))
               (\<lambda>(tok, t2). tokenize_loop t2 (tokens @ [tok])))"
  by (subst tokenize_loop.simps) (simp add: Let_def)

lemma tokenize_loop_blank:
  "pos t < length (source t) \<Longrightarrow> peek (skip_whitespace_and_comments t) = NUL \<Longrightarrow>
     tokenize_loop t tokens = Inr (tokens, skip_whitespace_and_comments t)"
  by (simp add: tokenize_loop_step)

lemma tokenize_loop_token:
  "pos t < length (source t) \<Longrightarrow> peek (skip_whitespace_and_comments t) \<noteq> NUL \<Longrightarrow>
   next_token (skip_whitespace_and_comments t) = Inr (tok, t2) \<Longrightarrow>
     tokenize_loop t tokens = tokenize_loop t2 (tokens @ [tok])"
  by (simp add: tokenize_loop_step)

lemma tokenize_loop_error:
  "pos t < length (source t) \<Longrightarrow> peek (skip_whitespace_and_comments t) \<noteq> NUL \<Longrightarrow>
   next_token (skip_whitespace_and_comments t) = Inl e \<Longrightarrow>
     tokenize_loop t tokens = Inl e"
  by (simp add: tokenize_loop_step)

lemmas tokenize_loop_unfold =
  tokenize_loop_end tokenize_loop_blank tokenize_loop_token tokenize_loop_error

lemma tokenize_loop_induct [case_names finished blank token error]:
  assumes "\<And>t tokens. length (source t) \<le> pos t \<Longrightarrow> P t tokens"
    and "\<And>t tokens. pos t < length (source t) \<Longrightarrow>
          peek (skip_whitespace_and_comments t) = NUL \<Longrightarrow> P t tokens"
    and "\<And>t tokens tok t2. pos t < length (source t) \<Longrightarrow>
          peek (skip_whitespace_and_comments t) \<noteq> NUL \<Longrightarrow>
          next_token (skip_whitespace_and_comments t) = Inr (tok, t2) \<Longrightarrow>
          P t2 (tokens @ [tok]) \<Longrightarrow> P t tokens"
    and "\<And>t tokens e. pos t < length (source t) \<Longrightarrow>
          peek (skip_whitespace_and_comments t) \<noteq> NUL \<Longrightarrow>
          next_token (skip_whitespace_and_comments t) = Inl e \<Longrightarrow> P t tokens"
  shows "P t tokens"
proof (induction t tokens rule: tokenize_loop.induct)
  case (1 t tokens)
  let ?t1 = "skip_whitespace_and_comments t"
  show ?case
  proof (cases "pos t < length (source t)")
    case False
    then show ?thesis by (intro assms(1)) simp
  next
    case in_range: True
    show ?thesis
    proof (cases "peek ?t1 = NUL")
      case True
      with in_range show ?thesis by (rule assms(2))
    next
      case more: False
      show ?thesis
      proof (cases "next_token ?t1")
        case (Inl e)
        with in_range more show ?thesis by (rule assms(4))
      next
        case (Inr x)
        obtain tok t2 where x: "x = (tok, t2)" by (cases x)
        from 1 [OF in_range refl more Inr x [symmetric]] have "P t2 (tokens @ [tok])" .
        with in_range more Inr [unfolded x] show ?thesis by (rule assms(3))
      qed
    qed
  qed
qed

subsection \<open>What the loop scans\<close>

text \<open>
  \<open>scans t new t'\<close>: from \<open>t\<close> the loop reads the tokens \<open>new\<close>, in this order, and stops
  at \<open>t'\<close>. The relation is the specification of the loop; \<open>tokenize_loop_iff_scans\<close> says
  that the loop returns exactly what it relates.
\<close>

inductive scans :: "Tokenizer \<Rightarrow> Token list \<Rightarrow> Tokenizer \<Rightarrow> bool" where
  scans_end: "length (source t) \<le> pos t \<Longrightarrow> scans t [] t"
| scans_blank: "pos t < length (source t) \<Longrightarrow> peek (skip_whitespace_and_comments t) = NUL \<Longrightarrow>
     scans t [] (skip_whitespace_and_comments t)"
| scans_token: "pos t < length (source t) \<Longrightarrow> peek (skip_whitespace_and_comments t) \<noteq> NUL \<Longrightarrow>
     next_token (skip_whitespace_and_comments t) = Inr (tok, t2) \<Longrightarrow> scans t2 new t' \<Longrightarrow>
     scans t (tok # new) t'"

inductive_cases scans_NilE: "scans t [] t'"
inductive_cases scans_ConsE: "scans t (tok # new) t'"

lemma tokenize_loop_scans:
  "tokenize_loop t tokens = Inr (tokens', t') \<Longrightarrow> \<exists>new. tokens' = tokens @ new \<and> scans t new t'"
proof (induction t tokens arbitrary: tokens' t' rule: tokenize_loop_induct)
  case (finished t tokens)
  then show ?case by (auto simp: tokenize_loop_end intro: scans_end)
next
  case (blank t tokens)
  then show ?case by (auto simp: tokenize_loop_blank intro: scans_blank)
next
  case (token t tokens tok t2)
  from token(5) have "tokenize_loop t2 (tokens @ [tok]) = Inr (tokens', t')"
    by (simp add: tokenize_loop_token [OF token(1-3)])
  then obtain new where "tokens' = (tokens @ [tok]) @ new" and "scans t2 new t'"
    using token(4) by blast
  with token(1-3) show ?case by (auto intro: scans_token)
next
  case (error t tokens e)
  then show ?case by (simp add: tokenize_loop_error)
qed

lemma scans_tokenize_loop:
  "scans t new t' \<Longrightarrow> tokenize_loop t tokens = Inr (tokens @ new, t')"
  by (induction arbitrary: tokens rule: scans.induct) (simp_all add: tokenize_loop_unfold)


lemma scans_deterministic:
  assumes "scans t new t'" and "scans t new2 t2"
  shows "new2 = new \<and> t2 = t'"
  using scans_tokenize_loop [OF assms(1), of "[]"] scans_tokenize_loop [OF assms(2), of "[]"]
  by simp

subsection \<open>Well-formed tokens\<close>

text \<open>
  \<open>lexeme tok\<close>: the token is one that a scanner of the loop makes. A keyword is one of
  the reserved words, a boolean is \<^verbatim>\<open>TRUE\<close> or \<^verbatim>\<open>FALSE\<close>, an identifier is a non-empty run
  of identifier characters that does not start with a digit and is neither reserved nor a
  boolean, and a symbol carries its own text. No scanner makes a \<open>Plus\<close> or an
  \<open>EndOfFile\<close> token.
\<close>

definition lexeme :: "Token \<Rightarrow> bool" where
  "lexeme tok \<longleftrightarrow>
     (tok_type tok = Keyword \<and> tok_value tok \<in> set reserved_words)
     \<or> (tok_type tok = Boolean \<and> (tok_value tok = ''TRUE'' \<or> tok_value tok = ''FALSE''))
     \<or> (tok_type tok = Identifier \<and> tok_value tok \<noteq> []
          \<and> list_all is_ident_char (tok_value tok) \<and> \<not> is_digit (hd (tok_value tok))
          \<and> tok_value tok \<notin> set reserved_words
          \<and> tok_value tok \<noteq> ''TRUE'' \<and> tok_value tok \<noteq> ''FALSE'')
     \<or> tok_type tok = String
     \<or> (tok_type tok, tok_value tok) \<in> set symbol_lexemes"

lemma lexeme_not_EndOfFile [simp]: "lexeme tok \<Longrightarrow> tok_type tok \<noteq> EndOfFile"
  by (auto simp: lexeme_def symbol_lexemes_def)

lemma lexeme_not_Plus [simp]: "lexeme tok \<Longrightarrow> tok_type tok \<noteq> Plus"
  by (auto simp: lexeme_def symbol_lexemes_def)

lemma ident_run:
  assumes "isalpha (peek t) \<or> peek t = CHR ''_''"
  shows "fst (ident_loop t []) \<noteq> []" and "\<not> is_digit (hd (fst (ident_loop t [])))"
    and "list_all is_ident_char (fst (ident_loop t []))"
proof -
  from assms have first: "is_ident_char (peek t)"
    by (auto simp: is_ident_char_def is_alphanumeric_def is_alpha_def)
  then show "fst (ident_loop t []) \<noteq> []" by (simp add: ident_loop_first)
  from assms first show "\<not> is_digit (hd (fst (ident_loop t [])))"
    by (auto simp: ident_loop_first is_digit_def char_class_defs)
  show "list_all is_ident_char (fst (ident_loop t []))" by (simp add: ident_loop_chars)
qed

lemma lexeme_identifier_or_keyword:
  assumes "isalpha (peek t) \<or> peek t = CHR ''_''"
  shows "lexeme (fst (identifier_or_keyword t))"
  using ident_run [OF assms] classify_cases [of "fst (ident_loop t [])"]
  by (auto simp: lexeme_def)

lemma lexeme_next_token:
  assumes "next_token t = Inr (tok, t')"
  shows "lexeme tok"
  using assms
proof (cases rule: next_token_cases)
  case ident
  from lexeme_identifier_or_keyword [OF ident(1)] ident(2) show ?thesis by simp
next
  case string
  then show ?thesis by (simp add: lexeme_def)
next
  case symbol
  from symbol_InrD(1) [OF symbol(4)] show ?thesis by (simp add: lexeme_def)
qed

lemma position_next_token:
  assumes "next_token t = Inr (tok, t')"
  shows "tok_line tok = line t' \<and> tok_column tok = column t'"
  using assms
proof (cases rule: next_token_cases)
  case ident
  then show ?thesis by (auto simp: identifier_or_keyword_eq)
next
  case string
  from string_tok_InrD(1) [OF string(2)] show ?thesis by simp
next
  case symbol
  from symbol_InrD(2,3) [OF symbol(4)] show ?thesis by simp
qed

subsection \<open>Properties of a scan\<close>

lemma scans_moves: "scans t new t' \<Longrightarrow> moves t t'"
proof (induction rule: scans.induct)
  case (scans_token t tok t2 new t')
  have "moves t (skip_whitespace_and_comments t)" by simp
  also from scans_token(3) have "moves \<dots> t2" by (rule moves_next_token)
  also note scans_token(5)
  finally show ?case .
qed simp_all

lemma scans_inv: "scans t new t' \<Longrightarrow> tokenizer_inv t \<Longrightarrow> tokenizer_inv t'"
proof (induction rule: scans.induct)
  case (scans_token t tok t2 new t')
  from scans_token(6) have "tokenizer_inv (skip_whitespace_and_comments t)" by simp
  with scans_token(3) have "tokenizer_inv t2" by (rule tokenizer_inv_next_token)
  then show ?case by (rule scans_token(5))
qed simp_all

lemma scans_stop: "scans t new t' \<Longrightarrow> peek t' = NUL"
  by (induction rule: scans.induct) simp_all

lemma scans_lexemes: "scans t new t' \<Longrightarrow> list_all lexeme new"
  by (induction rule: scans.induct) (simp_all add: lexeme_next_token)

lemma scans_lines: "scans t new t' \<Longrightarrow> sorted (line t # map tok_line new @ [line t'])"
proof (induction rule: scans.induct)
  case (scans_end t)
  show ?case by simp
next
  case (scans_blank t)
  show ?case using movesD(3) [OF moves_skip_whitespace_and_comments [of t]] by simp
next
  case (scans_token t tok t2 new t')
  have "moves t (skip_whitespace_and_comments t)" by simp
  also from scans_token(3) have "moves \<dots> t2" by (rule moves_next_token)
  finally have "line t \<le> line t2" by (rule movesD)
  with scans_token(5) position_next_token [OF scans_token(3)] show ?case
    by auto
qed

lemma scans_positions:
  assumes "scans t new t'" and "tokenizer_inv t"
  shows "list_all (\<lambda>tok. 1 \<le> tok_line tok \<and> tok_line tok \<le> int (length (source t)) + 1
            \<and> 1 \<le> tok_column tok \<and> tok_column tok \<le> int (length (source t)) + 1) new"
  using assms
proof (induction rule: scans.induct)
  case (scans_token t tok t2 new t')
  let ?t1 = "skip_whitespace_and_comments t"
  from scans_token(6) have "tokenizer_inv ?t1" by simp
  with scans_token(3) have inv2: "tokenizer_inv t2" by (rule tokenizer_inv_next_token)
  have "moves t ?t1" by simp
  also from scans_token(3) have "moves \<dots> t2" by (rule moves_next_token)
  finally have src: "source t2 = source t" by (rule movesD)
  from tokenizer_invD [OF inv2] position_next_token [OF scans_token(3)] src
  have "1 \<le> tok_line tok \<and> tok_line tok \<le> int (length (source t)) + 1
      \<and> 1 \<le> tok_column tok \<and> tok_column tok \<le> int (length (source t)) + 1"
    by simp
  with scans_token(5) [OF inv2] src show ?case by simp
qed simp_all

section \<open>The token list\<close>

lemma tokenize_InrD:
  assumes "tokenize t = Inr (tokens, t')"
  obtains new where "tokens = new @ [make_token EndOfFile [] t']" and "scans t new t'"
proof -
  from assms obtain new where "tokenize_loop t [] = Inr (new, t')"
    and "tokens = new @ [make_token EndOfFile [] t']"
    by (auto simp: tokenize_def rbind_eq_Inr_iff)
  with that show ?thesis by (auto dest: tokenize_loop_scans)
qed

lemma tokenize_InlD:
  "tokenize t = Inl e \<Longrightarrow> tokenize_loop t [] = Inl e"
  by (auto simp: tokenize_def rbind_eq_Inl_iff)

lemma next_token_InlD:
  assumes "next_token t = Inl e"
  shows "e = RuntimeError ''Unterminated string''
     \<or> e = RuntimeError (''Unexpected character: '' @ [peek t]) \<and> single_symbol (peek t) = None
         \<and> \<not> isalpha (peek t) \<and> peek t \<noteq> CHR ''_'' \<and> peek t \<noteq> dquote"
proof (cases "isalpha (peek t) \<or> peek t = CHR ''_''")
  case True
  with assms show ?thesis by (simp add: next_token_ident)
next
  case False
  show ?thesis
  proof (cases "peek t = dquote")
    case True
    with assms show ?thesis by (auto simp: next_token_string dest: string_tok_InlD)
  next
    case False
    with \<open>\<not> (isalpha (peek t) \<or> peek t = CHR ''_'')\<close> assms have "symbol t = Inl e"
      by (simp add: next_token_symbol)
    with False \<open>\<not> (isalpha (peek t) \<or> peek t = CHR ''_'')\<close> show ?thesis
      using symbol_Inl_iff [of t] by (auto dest: symbol_InlD)
  qed
qed

lemma tokenize_loop_InlD:
  "tokenize_loop t tokens = Inl e \<Longrightarrow>
     e = RuntimeError ''Unterminated string''
     \<or> (\<exists>c. e = RuntimeError (''Unexpected character: '' @ [c]) \<and> single_symbol c = None
           \<and> \<not> isalpha c \<and> c \<noteq> CHR ''_'' \<and> c \<noteq> dquote \<and> \<not> isspace c \<and> c \<noteq> NUL)"
proof (induction t tokens rule: tokenize_loop_induct)
  case (finished t tokens)
  then show ?case by (simp add: tokenize_loop_end)
next
  case (blank t tokens)
  then show ?case by (simp add: tokenize_loop_blank)
next
  case (token t tokens tok t2)
  then show ?case by (simp add: tokenize_loop_token)
next
  case (error t tokens e')
  let ?c = "peek (skip_whitespace_and_comments t)"
  from error(4) have e: "e' = e" by (simp add: tokenize_loop_error [OF error(1-3)])
  from next_token_InlD [OF error(3)] show ?case
  proof
    assume "e' = RuntimeError ''Unterminated string''"
    with e show ?thesis by simp
  next
    assume "e' = RuntimeError (''Unexpected character: '' @ [?c]) \<and> single_symbol ?c = None
         \<and> \<not> isalpha ?c \<and> ?c \<noteq> CHR ''_'' \<and> ?c \<noteq> dquote"
    with e error(2) have "e = RuntimeError (''Unexpected character: '' @ [?c])
        \<and> single_symbol ?c = None \<and> \<not> isalpha ?c \<and> ?c \<noteq> CHR ''_'' \<and> ?c \<noteq> dquote
        \<and> \<not> isspace ?c \<and> ?c \<noteq> NUL"
      by simp
    then show ?thesis by (intro disjI2 exI [of _ ?c])
  qed
qed

lemmas tokenizer_eval [run_simps] =
  Tokenizer_new_def peek_def advance_def Let_def match_def make_token_def
  skip_whitespace_and_comments_unfold at_comment_def char_class_defs skip_comment.simps
  string_loop_unfold string_tok_eq ident_loop_unfold is_ident_char_def is_alphanumeric_def
  is_alpha_def is_digit_def identifier_or_keyword_eq classify_def reserved_words_def
  symbol_eq single_symbol_def next_token_def tokenize_loop.simps tokenize_def

text \<open>
  C5. The token list of a successful \<open>tokenize\<close> is never empty: it ends with the one
  \<open>EndOfFile\<close> token, whose text is empty, and every token before it is a lexeme, so
  none of them is an \<open>EndOfFile\<close> token.
\<close>

theorem tokenize_token_list:
  assumes "tokenize t = Inr (tokens, t')"
  shows "tokens \<noteq> [] \<and> tok_type (last tokens) = EndOfFile \<and> tok_value (last tokens) = []
     \<and> list_all lexeme (butlast tokens)"
  using assms by (rule tokenize_InrD) (simp add: scans_lexemes)

theorem tokenize_token_list_witness:
  "\<exists>tokens t'. tokenize (Tokenizer_new ''x = TRUE;'') = Inr (tokens, t')
     \<and> map tok_type tokens = [Identifier, Equals, Boolean, Semicolon, EndOfFile]
     \<and> tok_type (last tokens) = EndOfFile \<and> list_all lexeme (butlast tokens)"
proof -
  obtain tokens t' where run: "tokenize (Tokenizer_new ''x = TRUE;'') = Inr (tokens, t')"
    and types: "map tok_type tokens = [Identifier, Equals, Boolean, Semicolon, EndOfFile]"
    by (simp add: tokenizer_eval)
  from tokenize_token_list [OF run] types run show ?thesis by auto
qed

lemma tokenize_sample:
  "tokenize (Tokenizer_new ''a;'') =
     Inr ([\<lparr>tok_type = Identifier, tok_value = ''a'', tok_line = 1, tok_column = 2\<rparr>,
           \<lparr>tok_type = Semicolon, tok_value = '';'', tok_line = 1, tok_column = 3\<rparr>,
           \<lparr>tok_type = EndOfFile, tok_value = [], tok_line = 1, tok_column = 3\<rparr>],
          \<lparr>source = ''a;'', pos = 2, line = 1, column = 3\<rparr>)"
  by (simp add: tokenizer_eval)

text \<open>
  C15. \<open>tokenize\<close> keeps the invariant of the tokenizer object: after a successful call
  the position is still within the same text and not before where it was, and the line
  and column counters are still between 1 and the position plus 1.
\<close>

theorem tokenize_keeps_invariant:
  assumes "tokenizer_inv t" and "tokenize t = Inr (tokens, t')"
  shows "tokenizer_inv t' \<and> moves t t'"
  using assms(2) by (rule tokenize_InrD) (simp add: scans_inv [OF _ assms(1)] scans_moves)

theorem tokenize_keeps_invariant_witness:
  "tokenizer_inv (Tokenizer_new ''a;'')
     \<and> tokenizer_inv \<lparr>source = ''a;'', pos = 2, line = 1, column = 3\<rparr>
     \<and> moves (Tokenizer_new ''a;'') \<lparr>source = ''a;'', pos = 2, line = 1, column = 3\<rparr>"
  using tokenize_keeps_invariant [OF tokenizer_inv_new tokenize_sample] by simp

text \<open>
  C16. Every token of a successful \<open>tokenize\<close>, the \<open>EndOfFile\<close> token included, carries
  a line and a column between 1 and the length of the text plus 1: the \<^verbatim>\<open>int\<close> counters of
  the C++ object cannot overflow on a text shorter than \<open>2^31 - 1\<close> bytes.
\<close>

theorem tokenize_positions:
  assumes "tokenizer_inv t" and "tokenize t = Inr (tokens, t')"
  shows "list_all (\<lambda>tok. 1 \<le> tok_line tok \<and> tok_line tok \<le> int (length (source t)) + 1
            \<and> 1 \<le> tok_column tok \<and> tok_column tok \<le> int (length (source t)) + 1) tokens"
  using assms(2)
proof (rule tokenize_InrD)
  fix new
  assume tokens: "tokens = new @ [make_token EndOfFile [] t']" and scan: "scans t new t'"
  from scan assms(1) have "tokenizer_inv t'" by (rule scans_inv)
  moreover from scan have "source t' = source t" by (rule movesD [OF scans_moves])
  ultimately show ?thesis
    using scans_positions [OF scan assms(1)] tokens by (simp add: tokenizer_inv_def)
qed

theorem tokenize_positions_witness:
  "list_all (\<lambda>tok. 1 \<le> tok_line tok \<and> tok_line tok \<le> 3 \<and> 1 \<le> tok_column tok \<and> tok_column tok \<le> 3)
     [\<lparr>tok_type = Identifier, tok_value = ''a'', tok_line = 1, tok_column = 2\<rparr>,
      \<lparr>tok_type = Semicolon, tok_value = '';'', tok_line = 1, tok_column = 3\<rparr>,
      \<lparr>tok_type = EndOfFile, tok_value = [], tok_line = 1, tok_column = 3\<rparr>]"
  using tokenize_positions [OF tokenizer_inv_new tokenize_sample] by (simp add: Tokenizer_new_def)

text \<open>
  C26. The tokens of a successful \<open>tokenize\<close> are in the order of the text: their line
  numbers never decrease along the list, and none is before the line the tokenizer
  started on.
\<close>

theorem tokenize_lines_sorted:
  assumes "tokenize t = Inr (tokens, t')"
  shows "sorted (line t # map tok_line tokens)"
  using assms by (rule tokenize_InrD) (use scans_lines in force)

theorem tokenize_lines_sorted_witness:
  "\<exists>tokens t'. tokenize (Tokenizer_new (''a'' @ [newline] @ ''b'')) = Inr (tokens, t')
     \<and> map tok_line tokens = [1, 2, 2] \<and> sorted (1 # map tok_line tokens)"
proof -
  obtain tokens t' where run: "tokenize (Tokenizer_new (''a'' @ [newline] @ ''b'')) = Inr (tokens, t')"
    and lines: "map tok_line tokens = [1, 2, 2]"
    by (simp add: tokenizer_eval)
  from tokenize_lines_sorted [OF run] lines run show ?thesis
    by (auto simp: Tokenizer_new_def)
qed

text \<open>
  C25. \<open>tokenize\<close> fails in two ways only: with the message \<^verbatim>\<open>Unterminated string\<close>, or with
  \<^verbatim>\<open>Unexpected character: \<close> followed by a character of the text that starts no token (not
  a letter, an underscore, a quote, white space, \<open>NUL\<close> or one of the nine one-character
  symbols).
\<close>

theorem tokenize_errors:
  assumes "tokenize t = Inl e"
  shows "e = RuntimeError ''Unterminated string''
     \<or> (\<exists>c. e = RuntimeError (''Unexpected character: '' @ [c]) \<and> single_symbol c = None
           \<and> \<not> isalpha c \<and> c \<noteq> CHR ''_'' \<and> c \<noteq> dquote \<and> \<not> isspace c \<and> c \<noteq> NUL)"
  by (rule tokenize_loop_InlD [OF tokenize_InlD [OF assms]])

theorem tokenize_errors_witness:
  "tokenize (Tokenizer_new ''9'') = Inl (RuntimeError ''Unexpected character: 9'')
     \<and> single_symbol (CHR ''9'') = None"
proof -
  have run: "tokenize (Tokenizer_new ''9'') = Inl (RuntimeError ''Unexpected character: 9'')"
    by (simp add: tokenizer_eval)
  from tokenize_errors [OF run] run show ?thesis by auto
qed

text \<open>
  C27. No token of type \<open>Plus\<close> is ever produced: \<^verbatim>\<open>Tokenizer::symbol\<close> has no case for the
  character \<^verbatim>\<open>+\<close>, so the concatenation syntax that the parser accepts cannot be written
  in a script.
\<close>

theorem tokenize_never_Plus:
  assumes "tokenize t = Inr (tokens, t')"
  shows "Plus \<notin> set (map tok_type tokens)"
  using assms
proof (rule tokenize_InrD)
  fix new
  assume tokens: "tokens = new @ [make_token EndOfFile [] t']" and "scans t new t'"
  then have "list_all lexeme new" by (simp add: scans_lexemes)
  have "Plus \<notin> set (map tok_type new)"
  proof
    assume "Plus \<in> set (map tok_type new)"
    then obtain tok where "tok \<in> set new" and "tok_type tok = Plus" by auto
    with \<open>list_all lexeme new\<close> show False
      using lexeme_not_Plus [of tok] by (simp add: list_all_iff)
  qed
  with tokens show ?thesis by simp
qed

theorem tokenize_never_Plus_witness:
  "Plus \<notin> set [Identifier, Semicolon, EndOfFile]
     \<and> tokenize (Tokenizer_new ''a+b'') = Inl (RuntimeError ''Unexpected character: +'')"
proof -
  have "tokenize (Tokenizer_new ''a+b'') = Inl (RuntimeError ''Unexpected character: +'')"
    by (simp add: tokenizer_eval)
  with tokenize_never_Plus [OF tokenize_sample] show ?thesis by simp
qed

text \<open>
  C17. A successful \<open>tokenize\<close> reads the whole text: when the text holds no \<open>NUL\<close>
  character, the position after the call is the length of the text. (At a \<open>NUL\<close> character
  the loop stops early, because \<^verbatim>\<open>peek\<close> returns \<open>NUL\<close> for the end of the text.)
\<close>

theorem tokenize_reads_all:
  assumes "tokenizer_inv t" and "NUL \<notin> set (source t)" and "tokenize t = Inr (tokens, t')"
  shows "pos t' = length (source t)"
  using assms(3)
proof (rule tokenize_InrD)
  fix new
  assume scan: "scans t new t'"
  then have stop: "peek t' = NUL" by (rule scans_stop)
  from scan have src: "source t' = source t" by (rule movesD [OF scans_moves])
  from scan assms(1) have "tokenizer_inv t'" by (rule scans_inv)
  then have "pos t' \<le> length (source t')" by (rule tokenizer_invD)
  moreover have "\<not> pos t' < length (source t')"
  proof
    assume "pos t' < length (source t')"
    with stop have "NUL \<in> set (source t')" by (auto simp: peek_def dest: nth_mem)
    with src assms(2) show False by simp
  qed
  ultimately show ?thesis using src by simp
qed

theorem tokenize_reads_all_witness:
  "NUL \<notin> set ''a;'' \<and> pos \<lparr>source = ''a;'', pos = 2, line = 1, column = 3\<rparr> = length ''a;''"
  using tokenize_reads_all [OF tokenizer_inv_new _ tokenize_sample]
  by (simp add: Tokenizer_new_def)


end
