(* ===== verification/Slayout_Parser.thy ===== *)
theory Slayout_Parser
  imports Slayout_Tokenizer
begin

text \<open>
  The recursive-descent parser of \<^verbatim>\<open>src/src/parser.cpp\<close> and \<^verbatim>\<open>src/include/parser.h\<close>. The
  statement classes are the constructors of \<open>Statement\<close>, with the fields that
  \<^verbatim>\<open>parser.cpp\<close> writes. The class \<^verbatim>\<open>Parser\<close> is the record \<open>Parser\<close>; a method returns
  its result beside the object after the call. A read of \<^verbatim>\<open>tokens[current]\<close> outside the
  vector is the error \<open>UndefinedBehaviour\<close>. The lemmas characterise every method on
  every branch, show that the index stays inside a token list that ends with
  \<open>EndOfFile\<close>, and that every parsing function moves forward, which is what makes the
  recursion of \<open>parse_statement\<close> through \<open>parse_if\<close> terminate.
\<close>

section \<open>Statements\<close>

datatype Backend = GLSL | HLSL | MSL | SPIRV | UNKNOWN

datatype Statement =
    MacroDefStatement (varName: string) (macroName: string)
  | SetStatement (varName: string) (backend: string) (parts: "string list")
      (isLiteral: "bool list") (isReadFromFile: bool)
  | StringDeclaration (name: string) (expression: string)
  | SetDefaultStatement (varName: string) (parts: "string list") (isLiteral: "bool list")
      (isReadFromFile: bool)
  | LazyStatement (varName: string)
  | BooleanDeclaration (name: string) (flag: bool)
  | IfStatement (conditionVar: string) (body: "Statement list")
  | GenerateAllStatement
  | GenerateSelectStatement (backends: "Backend list")
  | PrintStatement (expression: string)

section \<open>The parser object\<close>

record Parser =
  tokens :: "Token list"
  current :: nat

definition Parser_new :: "Token list \<Rightarrow> Parser" where
  "Parser_new toks = \<lparr>tokens = toks, current = 0\<rparr>"

definition peek_token :: "Parser \<Rightarrow> Token result" where
  "peek_token p =
     (if current p < length (tokens p) then Inr (tokens p ! current p)
      else Inl UndefinedBehaviour)"

definition previous_token :: "Parser \<Rightarrow> Token result" where
  "previous_token p =
     (if 0 < current p \<and> current p - 1 < length (tokens p) then Inr (tokens p ! (current p - 1))
      else Inl UndefinedBehaviour)"

definition check :: "TokenType \<Rightarrow> Parser \<Rightarrow> bool result" where
  "check ty p = rbind (peek_token p) (\<lambda>tok. Inr (tok_type tok = ty))"

definition advance_token :: "Parser \<Rightarrow> (Token \<times> Parser) result" where
  "advance_token p =
     rbind (check EndOfFile p) (\<lambda>at_end.
       let p' = (if \<not> at_end then p\<lparr>current := current p + 1\<rparr> else p) in
       rbind (previous_token p') (\<lambda>tok. Inr (tok, p')))"

definition match_token :: "TokenType \<Rightarrow> Parser \<Rightarrow> (bool \<times> Parser) result" where
  "match_token ty p =
     rbind (check ty p) (\<lambda>found.
       if found then rbind (advance_token p) (\<lambda>(tok, p'). Inr (True, p'))
       else Inr (False, p))"

definition consume :: "TokenType \<Rightarrow> string \<Rightarrow> Parser \<Rightarrow> Parser result" where
  "consume ty errorMessage p =
     rbind (match_token ty p) (\<lambda>(found, p').
       if found then Inr p'
       else rbind (peek_token p') (\<lambda>tok.
              Inl (RuntimeError (errorMessage @ '' at line '' @ to_string (tok_line tok)))))"

subsection \<open>The token under the index\<close>

text \<open>
  \<open>in_range p\<close>: the index is inside the token list; \<open>cur p\<close> is the token there and
  \<open>step p\<close> the object with the index moved by one.
\<close>

definition in_range :: "Parser \<Rightarrow> bool" where
  "in_range p \<longleftrightarrow> current p < length (tokens p)"

definition cur :: "Parser \<Rightarrow> Token" where
  "cur p = tokens p ! current p"

definition step :: "Parser \<Rightarrow> Parser" where
  "step p = p\<lparr>current := Suc (current p)\<rparr>"

definition line_error :: "string \<Rightarrow> Parser \<Rightarrow> error" where
  "line_error msg p = RuntimeError (msg @ '' at line '' @ to_string (tok_line (cur p)))"

lemma step_sel [simp]: "tokens (step p) = tokens p" "current (step p) = Suc (current p)"
  by (simp_all add: step_def)

lemma peek_token_eq:
  "peek_token p = (if in_range p then Inr (cur p) else Inl UndefinedBehaviour)"
  by (simp add: peek_token_def in_range_def cur_def)

lemma previous_token_step [simp]: "in_range p \<Longrightarrow> previous_token (step p) = Inr (cur p)"
  by (simp add: previous_token_def in_range_def cur_def)

lemma check_eq:
  "check ty p = (if in_range p then Inr (tok_type (cur p) = ty) else Inl UndefinedBehaviour)"
  by (simp add: check_def peek_token_eq)

lemma advance_token_eq:
  "advance_token p =
     (if in_range p then
        (if tok_type (cur p) \<noteq> EndOfFile then Inr (cur p, step p)
         else rbind (previous_token p) (\<lambda>tok. Inr (tok, p)))
      else Inl UndefinedBehaviour)"
  by (simp add: advance_token_def check_eq step_def [symmetric] Let_def)

lemma match_token_eq:
  assumes "ty \<noteq> EndOfFile"
  shows "match_token ty p =
     (if in_range p then Inr (tok_type (cur p) = ty, if tok_type (cur p) = ty then step p else p)
      else Inl UndefinedBehaviour)"
  using assms by (auto simp: match_token_def check_eq advance_token_eq)

lemma consume_eq:
  assumes "ty \<noteq> EndOfFile"
  shows "consume ty msg p =
     (if in_range p then (if tok_type (cur p) = ty then Inr (step p) else Inl (line_error msg p))
      else Inl UndefinedBehaviour)"
  using assms by (simp add: consume_def match_token_eq peek_token_eq line_error_def)

lemma consume_Inr_iff:
  "ty \<noteq> EndOfFile \<Longrightarrow>
     consume ty msg p = Inr p' \<longleftrightarrow> in_range p \<and> tok_type (cur p) = ty \<and> p' = step p"
  by (auto simp: consume_eq)

lemma match_token_Inr_iff:
  "ty \<noteq> EndOfFile \<Longrightarrow>
     match_token ty p = Inr (found, p') \<longleftrightarrow>
       in_range p \<and> found = (tok_type (cur p) = ty) \<and> p' = (if found then step p else p)"
  by (auto simp: match_token_eq)

lemma check_Inr_iff: "check ty p = Inr found \<longleftrightarrow> in_range p \<and> found = (tok_type (cur p) = ty)"
  by (auto simp: check_eq)

subsection \<open>Moving forward over the token list\<close>

text \<open>
  \<open>ahead p p'\<close>: \<open>p'\<close> reads the token list of \<open>p\<close> at a later index, at most one past
  its end. Every parsing function that succeeds leaves the object ahead of where it
  started, so the number \<open>rest\<close> of tokens still to read gets smaller: the measure of the
  loops and of the recursion.
\<close>

definition rest :: "Parser \<Rightarrow> nat" where
  "rest p = length (tokens p) - current p"

definition ahead :: "Parser \<Rightarrow> Parser \<Rightarrow> bool" where
  "ahead p p' \<longleftrightarrow>
     tokens p' = tokens p \<and> current p < current p' \<and> current p' \<le> length (tokens p)"

definition along :: "Parser \<Rightarrow> Parser \<Rightarrow> bool" where
  "along p p' \<longleftrightarrow> p' = p \<or> ahead p p'"

lemma ahead_step [simp, intro]: "in_range p \<Longrightarrow> ahead p (step p)"
  by (simp add: ahead_def in_range_def)

lemma ahead_trans [trans]: "ahead p p' \<Longrightarrow> ahead p' p'' \<Longrightarrow> ahead p p''"
  by (auto simp: ahead_def)

lemma ahead_along_trans [trans]: "ahead p p' \<Longrightarrow> along p' p'' \<Longrightarrow> ahead p p''"
  by (auto simp: along_def intro: ahead_trans)

lemma along_ahead_trans [trans]: "along p p' \<Longrightarrow> ahead p' p'' \<Longrightarrow> ahead p p''"
  by (auto simp: along_def intro: ahead_trans)

lemma along_trans [trans]: "along p p' \<Longrightarrow> along p' p'' \<Longrightarrow> along p p''"
  by (auto simp: along_def intro: ahead_trans)

lemma along_refl [simp, intro]: "along p p"
  by (simp add: along_def)

lemma ahead_imp_along: "ahead p p' \<Longrightarrow> along p p'"
  by (simp add: along_def)

lemma ahead_step_trans: "in_range p \<Longrightarrow> along (step p) p' \<Longrightarrow> ahead p p'"
  by (rule ahead_along_trans [OF ahead_step])

lemma ahead_rest [simp]: "ahead p p' \<Longrightarrow> rest p' < rest p"
  by (auto simp: ahead_def rest_def)

lemma along_rest: "along p p' \<Longrightarrow> rest p' \<le> rest p"
  by (auto simp: along_def dest: ahead_rest less_imp_le)

lemma aheadD:
  assumes "ahead p p'"
  shows "tokens p' = tokens p" and "current p < current p'"
    and "current p' \<le> length (tokens p)" and "in_range p"
  using assms by (auto simp: ahead_def in_range_def)

lemma alongD:
  assumes "along p p'"
  shows "tokens p' = tokens p" and "current p \<le> current p'"
  using assms by (auto simp: along_def ahead_def)

lemma in_range_step: "in_range (step p) \<Longrightarrow> in_range p"
  by (simp add: in_range_def)

lemma consume_ahead: "ty \<noteq> EndOfFile \<Longrightarrow> consume ty msg p = Inr p' \<Longrightarrow> ahead p p'"
  by (simp add: consume_Inr_iff)

lemma match_token_along:
  "ty \<noteq> EndOfFile \<Longrightarrow> match_token ty p = Inr (found, p') \<Longrightarrow> along p p'"
  by (auto simp: match_token_Inr_iff intro: ahead_imp_along)

lemma match_token_ahead:
  "ty \<noteq> EndOfFile \<Longrightarrow> match_token ty p = Inr (True, p') \<Longrightarrow> ahead p p'"
  by (auto simp: match_token_Inr_iff)

section \<open>Strings of the standard library\<close>

text \<open>
  \<^verbatim>\<open>starts_with\<close> is the helper of \<^verbatim>\<open>parser.cpp\<close>. \<open>find_str\<close> and \<open>find_char\<close> are
  \<^verbatim>\<open>std::string::find\<close> on a string and on a character (the first index, \<open>None\<close> for
  \<^verbatim>\<open>npos\<close>); \<^verbatim>\<open>s.substr(i)\<close> is \<open>drop i s\<close>. A message that quotes a lexeme is built with
  \<open>quoted\<close>.
\<close>

abbreviation squote :: char where "squote \<equiv> CHR 0x27"

definition quoted :: "string \<Rightarrow> string" where
  "quoted s = squote # s @ [squote]"

definition starts_with :: "string \<Rightarrow> string \<Rightarrow> bool" where
  "starts_with s pre \<longleftrightarrow> length pre \<le> length s \<and> take (length pre) s = pre"

fun find_str :: "string \<Rightarrow> string \<Rightarrow> nat option" where
  "find_str [] sub = (if sub = [] then Some 0 else None)"
| "find_str (c # cs) sub =
     (if take (length sub) (c # cs) = sub then Some 0 else map_option Suc (find_str cs sub))"

fun find_char :: "string \<Rightarrow> char \<Rightarrow> nat option" where
  "find_char [] c = None"
| "find_char (d # ds) c = (if d = c then Some 0 else map_option Suc (find_char ds c))"

lemma find_char_Some:
  "find_char s c = Some i \<Longrightarrow> i < length s \<and> s ! i = c \<and> c \<notin> set (take i s)"
  by (induction s arbitrary: i) (auto split: if_splits)

lemma find_char_None: "find_char s c = None \<longleftrightarrow> c \<notin> set s"
  by (induction s) auto

lemma find_str_Some:
  "find_str s sub = Some i \<Longrightarrow> i \<le> length s \<and> take (length sub) (drop i s) = sub"
  by (induction s arbitrary: i) (auto split: if_splits)

lemma starts_with_append [simp]: "starts_with (pre @ s) pre"
  by (simp add: starts_with_def)

section \<open>Statements without nesting\<close>

definition parse_macro_def :: "Parser \<Rightarrow> (Statement \<times> Parser) result" where
  "parse_macro_def p =
     rbind (consume Identifier ''Expected macro variable name'' p) (\<lambda>p1.
     rbind (previous_token p1) (\<lambda>varTok.
     rbind (consume Equals (''Expected '' @ quoted ''='') p1) (\<lambda>p2.
     rbind (consume Keyword (''Expected '' @ quoted ''Macro'') p2) (\<lambda>p3.
     rbind (previous_token p3) (\<lambda>kw.
       if tok_value kw \<noteq> ''Macro''
       then Inl (RuntimeError (''Expected '' @ quoted ''Macro(...)''))
       else
     rbind (consume LParen (''Expected '' @ quoted ''('') p3) (\<lambda>p4.
     rbind (consume String ''Expected macro name string'' p4) (\<lambda>p5.
     rbind (previous_token p5) (\<lambda>nameTok.
     rbind (consume RParen (''Expected '' @ quoted '')'') p5) (\<lambda>p6.
     rbind (consume Semicolon (''Expected '' @ quoted '';'') p6) (\<lambda>p7.
       Inr (MacroDefStatement (tok_value varTok) (tok_value nameTok), p7)))))))))))"

text \<open>One round of the \<^verbatim>\<open>do\<close> loop of \<^verbatim>\<open>parse_set_or_read\<close>: a string literal or an identifier.\<close>

definition parse_part :: "string \<Rightarrow> Parser \<Rightarrow> (string \<times> bool \<times> Parser) result" where
  "parse_part func p =
     rbind (match_token String p) (\<lambda>(isStr, p1).
       if isStr then rbind (previous_token p1) (\<lambda>tok. Inr (tok_value tok, True, p1))
       else rbind (match_token Identifier p1) (\<lambda>(isId, p2).
         if isId then rbind (previous_token p2) (\<lambda>tok. Inr (tok_value tok, False, p2))
         else Inl (RuntimeError
                (''Expected string literal or string variable inside '' @ func))))"

lemma parse_part_InrD:
  assumes "parse_part func p = Inr (v, lit, p')"
  shows "in_range p" and "p' = step p" and "v = tok_value (cur p)"
    and "lit \<longleftrightarrow> tok_type (cur p) = String"
    and "tok_type (cur p) = String \<or> tok_type (cur p) = Identifier"
  using assms
  by (auto simp: parse_part_def rbind_eq_Inr_iff match_token_Inr_iff split: if_splits)

lemma parse_part_ahead: "parse_part func p = Inr (v, lit, p') \<Longrightarrow> ahead p p'"
  by (auto dest: parse_part_InrD)

function parts_loop ::
  "string \<Rightarrow> Parser \<Rightarrow> string list \<Rightarrow> bool list \<Rightarrow> (string list \<times> bool list \<times> Parser) result"
where
  "parts_loop func p vs lits =
     rbind (parse_part func p) (\<lambda>(v, lit, p1).
     rbind (match_token Plus p1) (\<lambda>(more, p2).
       if more then parts_loop func p2 (vs @ [v]) (lits @ [lit])
       else Inr (vs @ [v], lits @ [lit], p2)))"
  by pat_completeness auto
termination
proof (relation "measure (\<lambda>(func, p, vs, lits). rest p)")
  fix func p vs lits x v y lit p1 z more p2
  assume "parse_part func p = Inr x" and "(v, y) = x" and "(lit, p1) = y"
    and "match_token Plus p1 = Inr z" and "(more, p2) = z" and more
  then have "ahead p p1" and "along p1 p2"
    by (auto intro: parse_part_ahead match_token_along)
  then have "ahead p p2" by (rule ahead_along_trans)
  then show "((func, p2, vs @ [v], lits @ [lit]), func, p, vs, lits)
      \<in> measure (\<lambda>(func, p, vs, lits). rest p)"
    by simp
qed simp

declare parts_loop.simps [simp del]

definition parse_set_or_read :: "Parser \<Rightarrow> (Statement \<times> Parser) result" where
  "parse_set_or_read p =
     rbind (advance_token p) (\<lambda>(nameTok, p1).
     rbind (consume Dot (''Expected '' @ quoted ''.'') p1) (\<lambda>p2.
     rbind (consume Keyword ''Expected setter/reader function'' p2) (\<lambda>p3.
     rbind (previous_token p3) (\<lambda>funcTok.
       let var = tok_value nameTok; func = tok_value funcTok in
       if func = ''lazy'' then
         rbind (consume LParen (''Expected '' @ quoted ''('' @ '' after lazy'') p3) (\<lambda>p4.
         rbind (consume RParen (''Expected '' @ quoted '')'' @ '' after lazy()'') p4) (\<lambda>p5.
         rbind (consume Semicolon (''Expected '' @ quoted '';'' @ '' after lazy()'') p5) (\<lambda>p6.
           Inr (LazyStatement var, p6))))
       else
         let isRead = starts_with func ''read_'';
             isDefault = (find_str func ''default'' \<noteq> None) in
         rbind (consume LParen (''Expected '' @ quoted ''('') p3) (\<lambda>p4.
         rbind (parts_loop func p4 [] []) (\<lambda>(vs, lits, p5).
         rbind (consume RParen (''Expected '' @ quoted '')'') p5) (\<lambda>p6.
         rbind (consume Semicolon (''Expected '' @ quoted '';'') p6) (\<lambda>p7.
           if isDefault then Inr (SetDefaultStatement var vs lits isRead, p7)
           else (case find_char func (CHR ''_'') of
                   Some underscore \<Rightarrow>
                     Inr (SetStatement var (drop (underscore + 1) func) vs lits isRead, p7)
                 | None \<Rightarrow> Inl (RuntimeError ''Invalid set/read function name''))))))))))"

definition parse_lazy :: "Parser \<Rightarrow> (Statement \<times> Parser) result" where
  "parse_lazy p = Inl (RuntimeError ''lazy() must be used as a method on a macro'')"

definition parse_boolean :: "Parser \<Rightarrow> (Statement \<times> Parser) result" where
  "parse_boolean p =
     rbind (consume Identifier ''Expected boolean variable name'' p) (\<lambda>p1.
     rbind (previous_token p1) (\<lambda>nameTok.
     rbind (consume Equals (''Expected '' @ quoted ''='') p1) (\<lambda>p2.
     rbind (consume Boolean ''Expected TRUE or FALSE'' p2) (\<lambda>p3.
     rbind (previous_token p3) (\<lambda>valTok.
     rbind (consume Semicolon (''Expected '' @ quoted '';'') p3) (\<lambda>p4.
       Inr (BooleanDeclaration (tok_value nameTok) (tok_value valTok = ''TRUE''), p4)))))))"

definition parse_backend_enum :: "string \<Rightarrow> Backend" where
  "parse_backend_enum v =
     (if v = ''GLSL'' then GLSL else if v = ''HLSL'' then HLSL
      else if v = ''MSL'' then MSL else if v = ''SPIRV'' then SPIRV else UNKNOWN)"

text \<open>One round of the \<^verbatim>\<open>while\<close> loop of \<^verbatim>\<open>parse_generate\<close>: a backend name and, unless the
  closing parenthesis follows, a comma.\<close>

definition parse_backend :: "Parser \<Rightarrow> (Backend \<times> Parser) result" where
  "parse_backend p =
     rbind (consume Identifier ''Expected backend name'' p) (\<lambda>p1.
     rbind (previous_token p1) (\<lambda>tok.
     rbind (check RParen p1) (\<lambda>closing.
       if \<not> closing then
         rbind (consume Comma (''Expected '' @ quoted '','' @ '' between backends'') p1) (\<lambda>p2.
           Inr (parse_backend_enum (tok_value tok), p2))
       else Inr (parse_backend_enum (tok_value tok), p1))))"

lemma parse_backend_ahead: "parse_backend p = Inr (b, p') \<Longrightarrow> ahead p p'"
  by (auto simp: parse_backend_def rbind_eq_Inr_iff consume_Inr_iff check_Inr_iff
      intro: ahead_trans split: if_splits)

function backends_loop :: "Parser \<Rightarrow> Backend list \<Rightarrow> (Backend list \<times> Parser) result" where
  "backends_loop p bs =
     rbind (check RParen p) (\<lambda>closing.
       if \<not> closing then rbind (parse_backend p) (\<lambda>(b, p1). backends_loop p1 (bs @ [b]))
       else Inr (bs, p))"
  by pat_completeness auto
termination
  by (relation "measure (\<lambda>(p, bs). rest p)") (auto dest: parse_backend_ahead)

declare backends_loop.simps [simp del]

definition parse_generate :: "Parser \<Rightarrow> (Statement \<times> Parser) result" where
  "parse_generate p =
     rbind (consume Arrow (''Expected '' @ quoted ''->'') p) (\<lambda>p1.
     rbind (consume Keyword ''Expected generate function'' p1) (\<lambda>p2.
     rbind (previous_token p2) (\<lambda>funcTok.
     rbind (consume LParen (''Expected '' @ quoted ''('') p2) (\<lambda>p3.
       if tok_value funcTok = ''generate_all'' then
         rbind (consume RParen (''Expected '' @ quoted '')'') p3) (\<lambda>p4.
         rbind (consume Semicolon (''Expected '' @ quoted '';'') p4) (\<lambda>p5.
           Inr (GenerateAllStatement, p5)))
       else if tok_value funcTok = ''generate_select'' then
         rbind (backends_loop p3 []) (\<lambda>(bs, p4).
         rbind (consume RParen (''Expected '' @ quoted '')'') p4) (\<lambda>p5.
         rbind (consume Semicolon (''Expected '' @ quoted '';'') p5) (\<lambda>p6.
           Inr (GenerateSelectStatement bs, p6))))
       else Inl (RuntimeError (''Unknown generate function: '' @ tok_value funcTok))))))"

definition parse_print :: "Parser \<Rightarrow> (Statement \<times> Parser) result" where
  "parse_print p =
     rbind (consume Keyword ''Expected SYSTEM'' p) (\<lambda>p1.
     rbind (previous_token p1) (\<lambda>kw.
       if tok_value kw \<noteq> ''SYSTEM'' then Inl (RuntimeError ''Expected SYSTEM'')
       else
     rbind (consume Arrow (''Expected '' @ quoted ''->'') p1) (\<lambda>p2.
     rbind (consume Identifier ''Expected list_backends'' p2) (\<lambda>p3.
     rbind (previous_token p3) (\<lambda>exprTok.
     rbind (consume LParen (''Expected '' @ quoted ''('') p3) (\<lambda>p4.
     rbind (consume RParen (''Expected '' @ quoted '')'') p4) (\<lambda>p5.
     rbind (consume Semicolon (''Expected '' @ quoted '';'') p5) (\<lambda>p6.
       Inr (PrintStatement (tok_value exprTok), p6)))))))))"

text \<open>One round of the \<^verbatim>\<open>while\<close> loop of \<^verbatim>\<open>parse_string\<close>, after the \<^verbatim>\<open>+\<close>: a string literal
  or an identifier, whose text is appended.\<close>

definition parse_operand :: "Parser \<Rightarrow> (string \<times> Parser) result" where
  "parse_operand p =
     rbind (match_token String p) (\<lambda>(isStr, p1).
       if isStr then rbind (previous_token p1) (\<lambda>tok. Inr (tok_value tok, p1))
       else rbind (match_token Identifier p1) (\<lambda>(isId, p2).
         if isId then rbind (previous_token p2) (\<lambda>tok. Inr (tok_value tok, p2))
         else Inl (RuntimeError (''Expected string or identifier after '' @ quoted ''+''))))"

lemma parse_operand_InrD:
  assumes "parse_operand p = Inr (v, p')"
  shows "in_range p" and "p' = step p" and "v = tok_value (cur p)"
    and "tok_type (cur p) = String \<or> tok_type (cur p) = Identifier"
  using assms
  by (auto simp: parse_operand_def rbind_eq_Inr_iff match_token_Inr_iff split: if_splits)

function concat_loop :: "Parser \<Rightarrow> string \<Rightarrow> (string \<times> Parser) result" where
  "concat_loop p acc =
     rbind (match_token Plus p) (\<lambda>(more, p1).
       if more then rbind (parse_operand p1) (\<lambda>(v, p2). concat_loop p2 (acc @ v))
       else Inr (acc, p1))"
  by pat_completeness auto
termination
proof (relation "measure (\<lambda>(p, acc). rest p)")
  fix p acc x more p1 y v p2
  assume "match_token Plus p = Inr x" and "(more, p1) = x" and more
    and "parse_operand p1 = Inr y" and "(v, p2) = y"
  then have "ahead p p1" and "ahead p1 p2"
    by (auto intro: match_token_ahead dest: parse_operand_InrD)
  then have "ahead p p2" by (rule ahead_trans)
  then show "((p2, acc @ v), p, acc) \<in> measure (\<lambda>(p, acc). rest p)" by simp
qed simp

declare concat_loop.simps [simp del]

definition parse_string :: "Parser \<Rightarrow> (Statement \<times> Parser) result" where
  "parse_string p =
     rbind (consume Identifier (''Expected variable name after '' @ quoted ''string'') p) (\<lambda>p1.
     rbind (previous_token p1) (\<lambda>nameTok.
     rbind (consume Equals (''Expected '' @ quoted ''='' @ '' after variable name'') p1) (\<lambda>p2.
     rbind (consume String ''Expected string or identifier'' p2) (\<lambda>p3.
     rbind (previous_token p3) (\<lambda>first.
     rbind (concat_loop p3 (tok_value first)) (\<lambda>(res, p4).
     rbind (consume Semicolon (''Expected '' @ quoted '';'' @ '' after string declaration'') p4)
       (\<lambda>p5. Inr (StringDeclaration (tok_value nameTok) res, p5))))))))"

section \<open>What the statement parsers accept\<close>

text \<open>
  \<open>expects tys p\<close>: the tokens from the index on have the types \<open>tys\<close>, in this order;
  \<open>skip n p\<close> is the object \<open>n\<close> tokens further and \<open>lexeme_at n p\<close> the text of the token
  \<open>n\<close> places after the index. With them the success of each parsing function is an
  equivalence: which token sequence it accepts, which statement it builds from which
  lexemes, and where it leaves the index.
\<close>

primrec expects :: "TokenType list \<Rightarrow> Parser \<Rightarrow> bool" where
  "expects [] p \<longleftrightarrow> True"
| "expects (ty # tys) p \<longleftrightarrow> in_range p \<and> tok_type (cur p) = ty \<and> expects tys (step p)"

primrec skip :: "nat \<Rightarrow> Parser \<Rightarrow> Parser" where
  "skip 0 p = p"
| "skip (Suc n) p = skip n (step p)"

definition lexeme_at :: "nat \<Rightarrow> Parser \<Rightarrow> string" where
  "lexeme_at n p = tok_value (cur (skip n p))"

declare expects.simps [simp del]

lemmas walk = expects.simps eval_nat_numeral lexeme_at_def rbind_eq_Inr_iff consume_Inr_iff

lemma skip_eq: "skip n p = p\<lparr>current := current p + n\<rparr>"
  by (induction n arbitrary: p) (simp_all add: step_def)

subsection \<open>Statements of fixed shape\<close>

lemma parse_macro_def_Inr_iff:
  "parse_macro_def p = Inr (s, p') \<longleftrightarrow>
     expects [Identifier, Equals, Keyword, LParen, String, RParen, Semicolon] p
     \<and> lexeme_at 2 p = ''Macro''
     \<and> s = MacroDefStatement (lexeme_at 0 p) (lexeme_at 4 p) \<and> p' = skip 7 p"
  by (auto simp: parse_macro_def_def walk cong: conj_cong)

lemma parse_boolean_Inr_iff:
  "parse_boolean p = Inr (s, p') \<longleftrightarrow>
     expects [Identifier, Equals, Boolean, Semicolon] p
     \<and> s = BooleanDeclaration (lexeme_at 0 p) (lexeme_at 2 p = ''TRUE'') \<and> p' = skip 4 p"
  by (auto simp: parse_boolean_def walk cong: conj_cong)

lemma parse_print_Inr_iff:
  "parse_print p = Inr (s, p') \<longleftrightarrow>
     expects [Keyword, Arrow, Identifier, LParen, RParen, Semicolon] p
     \<and> lexeme_at 0 p = ''SYSTEM''
     \<and> s = PrintStatement (lexeme_at 2 p) \<and> p' = skip 6 p"
  by (auto simp: parse_print_def walk cong: conj_cong)

lemma skip_sel [simp]: "tokens (skip n p) = tokens p" "current (skip n p) = current p + n"
  by (simp_all add: skip_eq)

lemma skip_skip [simp]: "skip m (skip n p) = skip (n + m) p"
  by (simp add: skip_eq)

lemma expects_length:
  "expects tys p \<Longrightarrow> tys \<noteq> [] \<Longrightarrow> current p + length tys \<le> length (tokens p)"
proof (induction tys arbitrary: p)
  case (Cons ty tys)
  show ?case
  proof (cases "tys = []")
    case False
    with Cons.prems have "current (step p) + length tys \<le> length (tokens (step p))"
      by (intro Cons.IH) (simp_all add: expects.simps)
    then show ?thesis by simp
  qed (use Cons.prems in \<open>simp add: expects.simps in_range_def\<close>)
qed simp

lemma ahead_skip [simp]: "ahead p (skip n p) \<longleftrightarrow> 0 < n \<and> current p + n \<le> length (tokens p)"
  by (auto simp: ahead_def)

lemma ahead_skipI: "expects tys p \<Longrightarrow> length tys = n \<Longrightarrow> 0 < n \<Longrightarrow> ahead p (skip n p)"
  by (auto dest: expects_length)

lemma expects_bound:
  "expects tys p \<Longrightarrow> tys = [] \<or> current p + length tys \<le> length (tokens p)"
  by (auto dest: expects_length)

subsection \<open>The loops\<close>

lemma parts_loop_Inr_iff:
  "parts_loop func p vs lits = Inr r \<longleftrightarrow>
     in_range p \<and> (tok_type (cur p) = String \<or> tok_type (cur p) = Identifier) \<and> in_range (step p)
     \<and> (if tok_type (cur (step p)) = Plus
         then parts_loop func (step (step p)) (vs @ [tok_value (cur p)])
                (lits @ [tok_type (cur p) = String]) = Inr r
         else r = (vs @ [tok_value (cur p)], lits @ [tok_type (cur p) = String], step p))"
  apply (subst parts_loop.simps)
  apply (auto simp: rbind_eq_Inr_iff match_token_Inr_iff parse_part_def  cong: conj_cong)
  done

lemma rest_step [simp]: "in_range p \<Longrightarrow> rest (step p) < rest p"
  by (simp add: rest_def in_range_def)

lemma parts_loop_InrD:
  assumes "parts_loop func p vs lits = Inr (vs', lits', p')"
  shows "ahead p p' \<and> (\<exists>new newl. vs' = vs @ new \<and> lits' = lits @ newl
            \<and> length newl = length new \<and> new \<noteq> [])"
  using assms
proof (induction "rest p" arbitrary: p vs lits rule: less_induct)
  case less
  note run = less.prems [unfolded parts_loop_Inr_iff [of func p]]
  then have range: "in_range p" "in_range (step p)" by simp_all
  show ?case
  proof (cases "tok_type (cur (step p)) = Plus")
    case True
    with run have more: "parts_loop func (step (step p)) (vs @ [tok_value (cur p)])
        (lits @ [tok_type (cur p) = String]) = Inr (vs', lits', p')"
      by simp
    from range have "rest (step (step p)) < rest p" by (simp add: rest_def in_range_def)
    from less.hyps [OF this more]
    have "ahead (step (step p)) p'" and "\<exists>new newl. vs' = (vs @ [tok_value (cur p)]) @ new
        \<and> lits' = (lits @ [tok_type (cur p) = String]) @ newl
        \<and> length newl = length new \<and> new \<noteq> []"
      by simp_all
    moreover from range have "ahead p (step (step p))" by (auto intro: ahead_trans)
    ultimately show ?thesis by (auto intro: ahead_trans)
  next
    case False
    with run show ?thesis by simp
  qed
qed

lemma parse_backend_Inr_iff:
  "parse_backend p = Inr r \<longleftrightarrow>
     in_range p \<and> tok_type (cur p) = Identifier \<and> in_range (step p)
     \<and> (if tok_type (cur (step p)) = RParen then r = (parse_backend_enum (tok_value (cur p)), step p)
         else tok_type (cur (step p)) = Comma
              \<and> r = (parse_backend_enum (tok_value (cur p)), step (step p)))"
  by (auto simp: parse_backend_def rbind_eq_Inr_iff consume_Inr_iff check_Inr_iff cong: conj_cong)

lemma backends_loop_Inr_iff:
  "backends_loop p bs = Inr r \<longleftrightarrow>
     in_range p \<and>
     (if tok_type (cur p) = RParen then r = (bs, p)
      else \<exists>b p1. parse_backend p = Inr (b, p1) \<and> backends_loop p1 (bs @ [b]) = Inr r)"
  by (subst backends_loop.simps) (auto simp: rbind_eq_Inr_iff check_Inr_iff)

lemma backends_loop_InrD:
  assumes "backends_loop p bs = Inr (bs', p')"
  shows "along p p' \<and> in_range p' \<and> tok_type (cur p') = RParen \<and> (\<exists>new. bs' = bs @ new)"
  using assms
proof (induction "rest p" arbitrary: p bs rule: less_induct)
  case less
  note run = less.prems [unfolded backends_loop_Inr_iff [of p]]
  show ?case
  proof (cases "tok_type (cur p) = RParen")
    case False
    with run obtain b p1 where one: "parse_backend p = Inr (b, p1)"
      and more: "backends_loop p1 (bs @ [b]) = Inr (bs', p')"
      by auto
    from one have "ahead p p1" by (rule parse_backend_ahead)
    with less.hyps [OF _ more] show ?thesis
      by (auto intro: ahead_imp_along ahead_along_trans)
  qed (use run in simp)
qed

lemma concat_loop_Inr_iff:
  "concat_loop p acc = Inr r \<longleftrightarrow>
     in_range p \<and>
     (if tok_type (cur p) = Plus
      then in_range (step p)
           \<and> (tok_type (cur (step p)) = String \<or> tok_type (cur (step p)) = Identifier)
           \<and> concat_loop (step (step p)) (acc @ tok_value (cur (step p))) = Inr r
      else r = (acc, p))"
  by (subst concat_loop.simps)
    (auto simp: rbind_eq_Inr_iff match_token_Inr_iff parse_operand_def cong: conj_cong)

lemma concat_loop_InrD:
  assumes "concat_loop p acc = Inr (res, p')"
  shows "along p p' \<and> in_range p' \<and> tok_type (cur p') \<noteq> Plus \<and> (\<exists>new. res = acc @ new)"
  using assms
proof (induction "rest p" arbitrary: p acc rule: less_induct)
  case less
  note run = less.prems [unfolded concat_loop_Inr_iff [of p]]
  show ?case
  proof (cases "tok_type (cur p) = Plus")
    case True
    with run have range: "in_range p" "in_range (step p)"
      and more: "concat_loop (step (step p)) (acc @ tok_value (cur (step p))) = Inr (res, p')"
      by simp_all
    from range have "ahead p (step (step p))" by (auto intro: ahead_trans)
    with less.hyps [OF _ more] show ?thesis
      by (auto intro: ahead_imp_along ahead_along_trans)
  qed (use run in simp)
qed

subsection \<open>Statements with a loop\<close>

lemma advance_token_Inr_iff:
  "tok_type (cur p) \<noteq> EndOfFile \<Longrightarrow>
     advance_token p = Inr r \<longleftrightarrow> in_range p \<and> r = (cur p, step p)"
  by (auto simp: advance_token_eq)

lemma parse_generate_Inr_iff:
  "parse_generate p = Inr (s, p') \<longleftrightarrow>
     expects [Arrow, Keyword, LParen] p \<and>
     (if lexeme_at 1 p = ''generate_all''
      then expects [RParen, Semicolon] (skip 3 p) \<and> s = GenerateAllStatement \<and> p' = skip 5 p
      else lexeme_at 1 p = ''generate_select'' \<and>
        (\<exists>bs p4. backends_loop (skip 3 p) [] = Inr (bs, p4) \<and> expects [RParen, Semicolon] p4
           \<and> s = GenerateSelectStatement bs \<and> p' = skip 2 p4))"
  by (auto simp: parse_generate_def walk cong: conj_cong)

definition setter :: "string \<Rightarrow> string \<Rightarrow> string list \<Rightarrow> bool list \<Rightarrow> Statement result" where
  "setter var func vs lits =
     (if find_str func ''default'' \<noteq> None
      then Inr (SetDefaultStatement var vs lits (starts_with func ''read_''))
      else case find_char func (CHR ''_'') of
             Some underscore \<Rightarrow>
               Inr (SetStatement var (drop (underscore + 1) func) vs lits (starts_with func ''read_''))
           | None \<Rightarrow> Inl (RuntimeError ''Invalid set/read function name''))"

lemma parse_set_or_read_Inr_iff:
  assumes "tok_type (cur p) \<noteq> EndOfFile"
  shows "parse_set_or_read p = Inr (s, p') \<longleftrightarrow>
     in_range p \<and> expects [Dot, Keyword] (skip 1 p) \<and>
     (if lexeme_at 2 p = ''lazy''
      then expects [LParen, RParen, Semicolon] (skip 3 p)
           \<and> s = LazyStatement (lexeme_at 0 p) \<and> p' = skip 6 p
      else expects [LParen] (skip 3 p) \<and>
        (\<exists>vs lits p5. parts_loop (lexeme_at 2 p) (skip 4 p) [] [] = Inr (vs, lits, p5)
           \<and> expects [RParen, Semicolon] p5
           \<and> setter (lexeme_at 0 p) (lexeme_at 2 p) vs lits = Inr s \<and> p' = skip 2 p5))"
  using assms
  by (auto simp: parse_set_or_read_def setter_def walk advance_token_Inr_iff Let_def
      split: option.splits cong: conj_cong)

lemma parse_string_Inr_iff:
  "parse_string p = Inr (s, p') \<longleftrightarrow>
     expects [Identifier, Equals, String] p \<and>
     (\<exists>res p4. concat_loop (skip 3 p) (lexeme_at 2 p) = Inr (res, p4) \<and> expects [Semicolon] p4
        \<and> s = StringDeclaration (lexeme_at 0 p) res \<and> p' = step p4)"
  by (auto simp: parse_string_def walk cong: conj_cong)

subsection \<open>Every statement parser moves forward\<close>

lemma ahead_trans3: "ahead p p1 \<Longrightarrow> ahead p1 p2 \<Longrightarrow> ahead p2 p3 \<Longrightarrow> ahead p p3"
  by (blast intro: ahead_trans)

lemma ahead_along_ahead: "ahead p p1 \<Longrightarrow> along p1 p2 \<Longrightarrow> ahead p2 p3 \<Longrightarrow> ahead p p3"
  by (blast intro: ahead_trans ahead_along_trans)

lemma parse_macro_def_ahead: "parse_macro_def p = Inr (s, p') \<Longrightarrow> ahead p p'"
  by (auto simp: parse_macro_def_Inr_iff dest!: expects_bound)

lemma parse_boolean_ahead: "parse_boolean p = Inr (s, p') \<Longrightarrow> ahead p p'"
  by (auto simp: parse_boolean_Inr_iff dest!: expects_bound)

lemma parse_print_ahead: "parse_print p = Inr (s, p') \<Longrightarrow> ahead p p'"
  by (auto simp: parse_print_Inr_iff dest!: expects_bound)

lemma parse_generate_ahead:
  assumes "parse_generate p = Inr (s, p')"
  shows "ahead p p'"
proof -
  note run = assms [unfolded parse_generate_Inr_iff]
  then have head: "ahead p (skip 3 p)" by (auto dest!: expects_bound)
  show ?thesis
  proof (cases "lexeme_at 1 p = ''generate_all''")
    case True
    with run show ?thesis by (auto dest!: expects_bound)
  next
    case False
    with run obtain bs p4 where "backends_loop (skip 3 p) [] = Inr (bs, p4)"
      and "expects [RParen, Semicolon] p4" and "p' = skip 2 p4"
      by auto
    then have "along (skip 3 p) p4" and "ahead p4 p'"
      by (auto dest: backends_loop_InrD dest!: expects_bound)
    with head show ?thesis by (rule ahead_along_ahead)
  qed
qed

lemma parse_string_ahead:
  assumes "parse_string p = Inr (s, p')"
  shows "ahead p p'"
proof -
  from assms [unfolded parse_string_Inr_iff] obtain res p4
    where "expects [Identifier, Equals, String] p"
      and "concat_loop (skip 3 p) (lexeme_at 2 p) = Inr (res, p4)"
      and "expects [Semicolon] p4" and "p' = skip 1 p4"
    by auto
  then have "ahead p (skip 3 p)" and "along (skip 3 p) p4" and "ahead p4 p'"
    by (auto dest: concat_loop_InrD dest!: expects_bound)
  then show ?thesis by (rule ahead_along_ahead)
qed

lemma parse_set_or_read_ahead:
  assumes "tok_type (cur p) \<noteq> EndOfFile" and "parse_set_or_read p = Inr (s, p')"
  shows "ahead p p'"
proof -
  note run = assms(2) [unfolded parse_set_or_read_Inr_iff [OF assms(1)]]
  show ?thesis
  proof (cases "lexeme_at 2 p = ''lazy''")
    case True
    with run show ?thesis by (auto dest!: expects_bound)
  next
    case False
    with run obtain vs lits p5 where "expects [LParen] (skip 3 p)"
      and "parts_loop (lexeme_at 2 p) (skip 4 p) [] [] = Inr (vs, lits, p5)"
      and "expects [RParen, Semicolon] p5" and "p' = skip 2 p5"
      by auto
    then have "ahead p (skip 4 p)" and "ahead (skip 4 p) p5" and "ahead p5 p'"
      by (auto dest: parts_loop_InrD dest!: expects_bound)
    then show ?thesis by (rule ahead_trans3)
  qed
qed

definition parse_other :: "Parser \<Rightarrow> (Statement \<times> Parser) result" where
  "parse_other p =
     rbind (check Identifier p) (\<lambda>isId.
       if isId then parse_set_or_read p
       else rbind (peek_token p) (\<lambda>tok.
              Inl (RuntimeError (''Unknown statement at line '' @ to_string (tok_line tok)))))"

lemma parse_other_Inr_iff:
  "parse_other p = Inr r \<longleftrightarrow>
     in_range p \<and> tok_type (cur p) = Identifier \<and> parse_set_or_read p = Inr r"
  by (auto simp: parse_other_def rbind_eq_Inr_iff check_Inr_iff peek_token_eq)

lemma parse_other_ahead: "parse_other p = Inr (s, p') \<Longrightarrow> ahead p p'"
  by (auto simp: parse_other_Inr_iff intro: parse_set_or_read_ahead)

section \<open>Statements\<close>

text \<open>
  \<^verbatim>\<open>parse_statement\<close> calls \<^verbatim>\<open>parse_if\<close>, whose loop calls \<^verbatim>\<open>parse_statement\<close> for every
  statement of the block. The three are one recursive definition. The recursive call of
  the loop is on the object that \<open>parse_statement\<close> returned, so termination needs that
  \<open>parse_statement\<close> moves forward; this is proved first for the arguments on which the
  recursion is known to end, and then gives the measure \<open>rest\<close> for all arguments.
\<close>

function parse_statement :: "Parser \<Rightarrow> (Statement \<times> Parser) result"
  and parse_if :: "Parser \<Rightarrow> (Statement \<times> Parser) result"
  and body_loop :: "Parser \<Rightarrow> Statement list \<Rightarrow> (Statement list \<times> Parser) result"
where
  "parse_statement p =
     rbind (match_token Keyword p) (\<lambda>(isKw, p1).
       if isKw then
         rbind (previous_token p1) (\<lambda>kw.
           if tok_value kw = ''macrodef'' then parse_macro_def p1
           else if tok_value kw = ''boolean'' then parse_boolean p1
           else if tok_value kw = ''if'' then parse_if p1
           else if tok_value kw = ''SYSTEM'' then parse_generate p1
           else if tok_value kw = ''print'' then parse_print p1
           else if tok_value kw = ''string'' then parse_string p1
           else parse_other p1)
       else parse_other p1)"
| "parse_if p =
     rbind (consume LParen (''Expected '' @ quoted ''('' @ '' after if'') p) (\<lambda>p1.
     rbind (consume Identifier ''Expected condition variable'' p1) (\<lambda>p2.
     rbind (previous_token p2) (\<lambda>cond.
     rbind (consume RParen (''Expected '' @ quoted '')'') p2) (\<lambda>p3.
     rbind (consume LBrace (''Expected '' @ quoted ''{'') p3) (\<lambda>p4.
     rbind (body_loop p4 []) (\<lambda>(stmts, p5).
     rbind (consume RBrace (''Expected '' @ quoted ''}'') p5) (\<lambda>p6.
       Inr (IfStatement (tok_value cond) stmts, p6))))))))"
| "body_loop p stmts =
     rbind (check RBrace p) (\<lambda>closing.
       if closing then Inr (stmts, p)
       else rbind (check EndOfFile p) (\<lambda>at_end.
         if at_end then Inr (stmts, p)
         else rbind (parse_statement p) (\<lambda>(s, p1). body_loop p1 (stmts @ [s]))))"
  by pat_completeness auto

lemmas statement_ahead =
  parse_macro_def_ahead parse_boolean_ahead parse_generate_ahead parse_print_ahead
  parse_string_ahead parse_other_ahead

lemma parse_progress_partial:
  "parse_statement_parse_if_body_loop_dom (Inl p) \<Longrightarrow>
     parse_statement p = Inr (s, p') \<Longrightarrow> ahead p p'"
  "parse_statement_parse_if_body_loop_dom (Inr (Inl p)) \<Longrightarrow>
     parse_if p = Inr (s, p') \<Longrightarrow> ahead p p'"
  "parse_statement_parse_if_body_loop_dom (Inr (Inr (p, stmts))) \<Longrightarrow>
     body_loop p stmts = Inr (ss, p') \<Longrightarrow> along p p'"
proof (induction p and p and p stmts arbitrary: s p' and s p' and ss p'
    rule: parse_statement_parse_if_body_loop.pinduct)
  case (1 p)
  note unfold = parse_statement.psimps [OF "1.hyps"]
  from "1.prems" have range: "in_range p"
    by (auto simp: unfold rbind_eq_Inr_iff match_token_Inr_iff)
  show ?case
  proof (cases "tok_type (cur p) = Keyword")
    case False
    with "1.prems" range have "parse_other p = Inr (s, p')"
      by (simp add: unfold match_token_eq)
    then show ?thesis by (rule parse_other_ahead)
  next
    case True
    with range have found: "match_token Keyword p = Inr (True, step p)"
      by (simp add: match_token_eq)
    have "ahead (step p) p'"
    proof (cases "tok_value (cur p) = ''if''")
      case True
      with "1.prems" range found have "parse_if (step p) = Inr (s, p')"
        by (simp add: unfold)
      with "1.IH" [of "(True, step p)" True "step p" "cur p"] found range True
      show ?thesis by simp
    next
      case False
      with "1.prems" range found show ?thesis
        by (auto simp: unfold split: if_splits dest: statement_ahead)
    qed
    with range show ?thesis by (rule ahead_step_trans [OF _ ahead_imp_along])
  qed
next
  case (2 p)
  note unfold = parse_if.psimps [OF "2.hyps"]
  from "2.prems" obtain p4 stmts p5 where head: "expects [LParen, Identifier, RParen, LBrace] p"
    and p4: "p4 = skip 4 p" and loop: "body_loop p4 [] = Inr (stmts, p5)"
    and tail: "expects [RBrace] p5" "p' = skip 1 p5"
    by (auto simp: unfold walk cong: conj_cong)
  from head p4 have "ahead p p4" by (auto dest!: expects_bound)
  moreover from head p4 loop have "along p4 p5"
    by (intro "2.IH" [of "skip 1 p" "skip 2 p" "cur (skip 1 p)" "skip 3 p" p4])
      (simp_all add: walk)
  moreover from tail have "ahead p5 p'" by (simp add: walk)
  ultimately show ?case by (rule ahead_along_ahead)
next
  case (3 p stmts)
  note unfold = body_loop.psimps [OF "3.hyps"]
  from "3.prems" have range: "in_range p"
    by (auto simp: unfold rbind_eq_Inr_iff check_Inr_iff)
  show ?case
  proof (cases "tok_type (cur p) = RBrace \<or> tok_type (cur p) = EndOfFile")
    case True
    with "3.prems" range show ?thesis by (auto simp: unfold check_eq)
  next
    case False
    with "3.prems" range obtain s1 p1 where one: "parse_statement p = Inr (s1, p1)"
      and more: "body_loop p1 (stmts @ [s1]) = Inr (ss, p')"
      by (auto simp: unfold check_eq rbind_eq_Inr_iff)
    from False range one have "ahead p p1"
      by (intro "3.IH"(1) [of False False]) (simp_all add: check_eq)
    moreover from False range one more have "along p1 p'"
      by (intro "3.IH"(2) [of False False "(s1, p1)" s1 p1]) (simp_all add: check_eq)
    ultimately show ?thesis by (rule ahead_imp_along [OF ahead_along_trans])
  qed
qed

lemma parse_total: "All parse_statement_parse_if_body_loop_dom"
proof (rule "parse_statement_parse_if_body_loop.termination"
    [of "measure (\<lambda>x. case x of Inl p \<Rightarrow> 2 * rest p | Inr (Inl p) \<Rightarrow> 2 * rest p
          | Inr (Inr (p, stmts)) \<Rightarrow> 2 * rest p + 1)"], goal_cases)
  case (2 p x isKw p1 kw)
  then have "ahead p p1" by (auto simp: match_token_Inr_iff)
  then show ?case by simp
next
  case (3 p p1 p2 cond p3 p4)
  then have "ahead p p4" by (auto simp: consume_Inr_iff ahead_def in_range_def)
  then have "rest p4 < rest p" by simp
  then show ?case by simp
next
  case (5 p stmts closing at_end x s p1)
  then have "ahead p p1" by (auto dest: parse_progress_partial(1))
  then have "rest p1 < rest p" by simp
  then show ?case by simp
qed simp_all

termination parse_statement
  by (rule parse_total)

declare parse_statement.simps [simp del] parse_if.simps [simp del] body_loop.simps [simp del]

lemmas parse_progress = parse_progress_partial [OF parse_total [THEN spec]]

lemma parse_statement_ahead: "parse_statement p = Inr (s, p') \<Longrightarrow> ahead p p'"
  by (rule parse_progress(1))

lemma parse_if_ahead: "parse_if p = Inr (s, p') \<Longrightarrow> ahead p p'"
  by (rule parse_progress(2))

lemma body_loop_along: "body_loop p stmts = Inr (ss, p') \<Longrightarrow> along p p'"
  by (rule parse_progress(3))

section \<open>The list of statements\<close>

function parse_loop :: "Parser \<Rightarrow> Statement list \<Rightarrow> (Statement list \<times> Parser) result" where
  "parse_loop p stmts =
     rbind (check EndOfFile p) (\<lambda>at_end.
       if at_end then Inr (stmts, p)
       else rbind (parse_statement p) (\<lambda>(s, p1). parse_loop p1 (stmts @ [s])))"
  by pat_completeness auto
termination
  by (relation "measure (\<lambda>(p, stmts). rest p)") (auto dest: parse_statement_ahead)

declare parse_loop.simps [simp del]

definition parse :: "Parser \<Rightarrow> (Statement list \<times> Parser) result" where
  "parse p = parse_loop p []"

section \<open>Unfolding and induction\<close>

text \<open>
  The recursive functions unfolded over the token under the index, the success of
  \<open>parse_if\<close> and of the two statement loops as equivalences, and the induction rules of
  the recursion with their premises stated over \<open>in_range\<close>, \<open>cur\<close> and \<open>step\<close>.
\<close>

lemma parse_statement_eq:
  "parse_statement p =
     (if in_range p then
        if tok_type (cur p) = Keyword then
          (let kw = tok_value (cur p); p1 = step p in
           if kw = ''macrodef'' then parse_macro_def p1
           else if kw = ''boolean'' then parse_boolean p1
           else if kw = ''if'' then parse_if p1
           else if kw = ''SYSTEM'' then parse_generate p1
           else if kw = ''print'' then parse_print p1
           else if kw = ''string'' then parse_string p1
           else parse_other p1)
        else parse_other p
      else Inl UndefinedBehaviour)"
  by (subst parse_statement.simps) (simp add: match_token_eq Let_def)

lemma body_loop_eq:
  "body_loop p stmts =
     (if in_range p then
        if tok_type (cur p) = RBrace \<or> tok_type (cur p) = EndOfFile then Inr (stmts, p)
        else rbind (parse_statement p) (\<lambda>(s, p1). body_loop p1 (stmts @ [s]))
      else Inl UndefinedBehaviour)"
  by (subst body_loop.simps) (simp add: check_eq)

lemma parse_loop_eq:
  "parse_loop p stmts =
     (if in_range p then
        if tok_type (cur p) = EndOfFile then Inr (stmts, p)
        else rbind (parse_statement p) (\<lambda>(s, p1). parse_loop p1 (stmts @ [s]))
      else Inl UndefinedBehaviour)"
  by (subst parse_loop.simps) (simp add: check_eq)

lemma parse_if_Inr_iff:
  "parse_if p = Inr (s, p') \<longleftrightarrow>
     expects [LParen, Identifier, RParen, LBrace] p \<and>
     (\<exists>stmts p5. body_loop (skip 4 p) [] = Inr (stmts, p5) \<and> expects [RBrace] p5
        \<and> s = IfStatement (lexeme_at 1 p) stmts \<and> p' = skip 1 p5)"
  by (subst parse_if.simps) (auto simp: walk cong: conj_cong)

lemma body_loop_Inr_iff:
  "body_loop p stmts = Inr r \<longleftrightarrow>
     in_range p \<and>
     (if tok_type (cur p) = RBrace \<or> tok_type (cur p) = EndOfFile then r = (stmts, p)
      else \<exists>s p1. parse_statement p = Inr (s, p1) \<and> body_loop p1 (stmts @ [s]) = Inr r)"
  by (subst body_loop_eq) (auto simp: rbind_eq_Inr_iff)

lemma parse_loop_Inr_iff:
  "parse_loop p stmts = Inr r \<longleftrightarrow>
     in_range p \<and>
     (if tok_type (cur p) = EndOfFile then r = (stmts, p)
      else \<exists>s p1. parse_statement p = Inr (s, p1) \<and> parse_loop p1 (stmts @ [s]) = Inr r)"
  by (subst parse_loop_eq) (auto simp: rbind_eq_Inr_iff)

lemma parse_induct [case_names statement conditional block]:
  assumes statement: "\<And>p. (in_range p \<Longrightarrow> tok_type (cur p) = Keyword \<Longrightarrow>
        tok_value (cur p) = ''if'' \<Longrightarrow> Q (step p)) \<Longrightarrow> P p"
    and conditional: "\<And>p. (expects [LParen, Identifier, RParen, LBrace] p \<Longrightarrow> R (skip 4 p) []) \<Longrightarrow> Q p"
    and block: "\<And>p stmts.
        (in_range p \<Longrightarrow> tok_type (cur p) \<noteq> RBrace \<Longrightarrow> tok_type (cur p) \<noteq> EndOfFile \<Longrightarrow> P p) \<Longrightarrow>
        (\<And>s p1. in_range p \<Longrightarrow> tok_type (cur p) \<noteq> RBrace \<Longrightarrow> tok_type (cur p) \<noteq> EndOfFile \<Longrightarrow>
           parse_statement p = Inr (s, p1) \<Longrightarrow> R p1 (stmts @ [s])) \<Longrightarrow> R p stmts"
  shows "P p" and "Q p" and "R p stmts"
proof (induction p and p and p stmts rule: parse_statement_parse_if_body_loop.induct)
  case (1 p)
  show ?case
  proof (rule statement)
    assume "in_range p" and "tok_type (cur p) = Keyword" and "tok_value (cur p) = ''if''"
    then show "Q (step p)"
      by (intro "1.IH" [of "(True, step p)" True "step p" "cur p"]) (simp_all add: match_token_eq)
  qed
next
  case (2 p)
  show ?case
  proof (rule conditional)
    assume "expects [LParen, Identifier, RParen, LBrace] p"
    then show "R (skip 4 p) []"
      by (intro "2.IH" [of "skip 1 p" "skip 2 p" "cur (skip 1 p)" "skip 3 p"]) (simp_all add: walk)
  qed
next
  case (3 p stmts)
  show ?case
  proof (rule block)
    assume "in_range p" and "tok_type (cur p) \<noteq> RBrace" and "tok_type (cur p) \<noteq> EndOfFile"
    then show "P p" by (intro "3.IH"(1) [of False False]) (simp_all add: check_eq)
  next
    fix s p1
    assume "in_range p" and "tok_type (cur p) \<noteq> RBrace" and "tok_type (cur p) \<noteq> EndOfFile"
      and "parse_statement p = Inr (s, p1)"
    then show "R p1 (stmts @ [s])"
      by (intro "3.IH"(2) [of False False "(s, p1)" s p1]) (simp_all add: check_eq)
  qed
qed

lemma parse_loop_induct [case_names round]:
  assumes "\<And>p stmts. (\<And>s p1. in_range p \<Longrightarrow> tok_type (cur p) \<noteq> EndOfFile \<Longrightarrow>
      parse_statement p = Inr (s, p1) \<Longrightarrow> P p1 (stmts @ [s])) \<Longrightarrow> P p stmts"
  shows "P p stmts"
proof (induction p stmts rule: parse_loop.induct)
  case (1 p stmts)
  show ?case
  proof (rule assms)
    fix s p1
    assume "in_range p" and "tok_type (cur p) \<noteq> EndOfFile" and "parse_statement p = Inr (s, p1)"
    then show "P p1 (stmts @ [s])"
      by (intro "1.IH" [of False "(s, p1)" s p1]) (simp_all add: check_eq)
  qed
qed

end
