(* ===== verification/Slayout_Parser_Safety.thy ===== *)
theory Slayout_Parser_Safety
  imports Slayout_Parser
begin

text \<open>
  What the parser of \<open>Slayout_Parser\<close> guarantees on the token lists that the tokenizer
  produces. \<open>returns r Q\<close> is the postcondition of a call: the call throws a
  \<^verbatim>\<open>std::runtime_error\<close> or returns a result that satisfies \<open>Q\<close>; it never reads outside the
  token vector. Its rules for \<open>rbind\<close> and for the methods of the parser object reduce
  the safety of every parsing function to simplification. \<open>parser_inv\<close> is the invariant
  of the object: the token list ends with \<open>EndOfFile\<close> and the index is inside it.
  \<open>wf_statement\<close> is what the interpreter relies on in a statement.
\<close>

section \<open>Postconditions of calls that may throw\<close>

definition eof_terminated :: "Token list \<Rightarrow> bool" where
  "eof_terminated toks \<longleftrightarrow> toks \<noteq> [] \<and> tok_type (last toks) = EndOfFile"

definition parser_inv :: "Parser \<Rightarrow> bool" where
  "parser_inv p \<longleftrightarrow> eof_terminated (tokens p) \<and> in_range p"

lemma parser_inv_in_range [simp]: "parser_inv p \<Longrightarrow> in_range p"
  by (simp add: parser_inv_def)

lemma parser_inv_step [simp]:
  assumes "parser_inv p" and "tok_type (cur p) \<noteq> EndOfFile"
  shows "parser_inv (step p)"
proof -
  from assms(1) have toks: "tokens p \<noteq> []" "tok_type (last (tokens p)) = EndOfFile"
    and range: "current p < length (tokens p)"
    by (simp_all add: parser_inv_def eof_terminated_def in_range_def)
  from toks assms(2) have "current p \<noteq> length (tokens p) - 1"
    by (auto simp: cur_def last_conv_nth)
  with range have "Suc (current p) < length (tokens p)" by simp
  with assms(1) show ?thesis by (simp add: parser_inv_def in_range_def)
qed

lemma parser_inv_new: "eof_terminated toks \<Longrightarrow> parser_inv (Parser_new toks)"
  by (simp add: parser_inv_def eof_terminated_def Parser_new_def in_range_def)

lemma returns_consume [simp]:
  "ty \<noteq> EndOfFile \<Longrightarrow> parser_inv p \<Longrightarrow>
     returns (consume ty msg p) Q \<longleftrightarrow> (tok_type (cur p) = ty \<longrightarrow> Q (step p))"
  by (simp add: consume_eq line_error_def)

lemma returns_match_token [simp]:
  "ty \<noteq> EndOfFile \<Longrightarrow> parser_inv p \<Longrightarrow>
     returns (match_token ty p) Q \<longleftrightarrow>
       (if tok_type (cur p) = ty then Q (True, step p) else Q (False, p))"
  by (simp add: match_token_eq)

lemma returns_check [simp]:
  "parser_inv p \<Longrightarrow> returns (check ty p) Q \<longleftrightarrow> Q (tok_type (cur p) = ty)"
  by (simp add: check_eq)

lemma returns_peek_token [simp]: "parser_inv p \<Longrightarrow> returns (peek_token p) Q \<longleftrightarrow> Q (cur p)"
  by (simp add: peek_token_eq)

lemma returns_previous_token [simp]:
  "in_range p \<Longrightarrow> returns (previous_token (step p)) Q \<longleftrightarrow> Q (cur p)"
  by simp

lemma returns_advance_token [simp]:
  "parser_inv p \<Longrightarrow> tok_type (cur p) \<noteq> EndOfFile \<Longrightarrow>
     returns (advance_token p) Q \<longleftrightarrow> Q (cur p, step p)"
  by (simp add: advance_token_eq)

definition safe :: "('a \<times> Parser) result \<Rightarrow> bool" where
  "safe r \<longleftrightarrow> returns r (\<lambda>(x, p'). parser_inv p')"

lemma parse_macro_def_safe: "parser_inv p \<Longrightarrow> safe (parse_macro_def p)"
  by (simp add: safe_def parse_macro_def_def)

lemma parse_boolean_safe: "parser_inv p \<Longrightarrow> safe (parse_boolean p)"
  by (simp add: safe_def parse_boolean_def)

lemma parse_print_safe: "parser_inv p \<Longrightarrow> safe (parse_print p)"
  by (simp add: safe_def parse_print_def)

section \<open>The loops and the statements of fixed shape\<close>

lemma rest_step_eq: "rest (step p) = rest p - 1"
  by (simp add: rest_def)

lemma rest_pos: "in_range p \<Longrightarrow> 0 < rest p"
  by (simp add: rest_def in_range_def)

lemma rest_step2 [simp]: "in_range p \<Longrightarrow> rest (step (step p)) < rest p"
  by (simp add: rest_def in_range_def)

lemma parts_loop_safe:
  "parser_inv p \<Longrightarrow> returns (parts_loop func p vs lits) (\<lambda>(vs', lits', p'). parser_inv p')"
proof (induction "rest p" arbitrary: p vs lits rule: less_induct)
  case less
  then show ?case
    by (subst parts_loop.simps) (simp add: parse_part_def)
qed

lemma parse_backend_safe: "parser_inv p \<Longrightarrow> safe (parse_backend p)"
  by (simp add: safe_def parse_backend_def)

lemma backends_loop_safe: "parser_inv p \<Longrightarrow> safe (backends_loop p bs)"
proof (induction "rest p" arbitrary: p bs rule: less_induct)
  case less
  then show ?case
    by (subst backends_loop.simps) (simp add: safe_def parse_backend_def)
qed

lemma concat_loop_safe: "parser_inv p \<Longrightarrow> safe (concat_loop p acc)"
proof (induction "rest p" arbitrary: p acc rule: less_induct)
  case less
  then show ?case
    by (subst concat_loop.simps) (simp add: safe_def parse_operand_def)
qed

lemma parse_generate_safe: "parser_inv p \<Longrightarrow> safe (parse_generate p)"
  apply (simp add: safe_def parse_generate_def)
  apply (auto intro!: returns_mono [OF backends_loop_safe [unfolded safe_def]])
  done

lemma parse_string_safe: "parser_inv p \<Longrightarrow> safe (parse_string p)"
  apply (simp add: safe_def parse_string_def)
  apply (auto intro!: returns_mono [OF concat_loop_safe [unfolded safe_def]])
  done

lemma parse_set_or_read_safe:
  "parser_inv p \<Longrightarrow> tok_type (cur p) \<noteq> EndOfFile \<Longrightarrow> safe (parse_set_or_read p)"
  apply (simp add: safe_def parse_set_or_read_def Let_def)
  apply (auto intro!: returns_mono [OF parts_loop_safe] split: option.splits)
  done

lemma parse_other_safe: "parser_inv p \<Longrightarrow> safe (parse_other p)"
  by (simp add: parse_other_def safe_def parse_set_or_read_safe [unfolded safe_def])

section \<open>Statements\<close>

lemmas statement_safe =
  parse_macro_def_safe parse_boolean_safe parse_generate_safe parse_print_safe
  parse_string_safe parse_other_safe

lemma returns_safeI:
  assumes "safe r" and "\<And>x p'. r = Inr (x, p') \<Longrightarrow> parser_inv p' \<Longrightarrow> returns (f x p') Q"
  shows "returns r (\<lambda>(x, p'). returns (f x p') Q)"
  using assms(1) unfolding safe_def by (rule returns_mono) (auto intro: assms(2))

lemma parse_safe_all:
  "parser_inv p \<Longrightarrow> safe (parse_statement p)"
  "parser_inv p \<Longrightarrow> safe (parse_if p)"
  "parser_inv p \<Longrightarrow> safe (body_loop p stmts)"
proof (induction p and p and p stmts rule: parse_induct)
  case (statement p)
  then show ?case
    by (auto simp: parse_statement_eq Let_def safe_def intro: statement_safe [unfolded safe_def])
next
  case (conditional p)
  show ?case
  proof (cases "expects [LParen, Identifier, RParen, LBrace] p")
    case False
    with conditional.prems show ?thesis
      by (subst parse_if.simps) (auto simp: safe_def walk)
  next
    case True
    with conditional have "safe (body_loop (skip 4 p) [])" by (simp add: walk)
    then have "returns (body_loop (skip 4 p) [])
        (\<lambda>(stmts, p5). returns (consume RBrace (''Expected '' @ quoted ''}'') p5) parser_inv)"
      by (rule returns_safeI) simp
    with True conditional.prems show ?thesis
      by (subst parse_if.simps) (simp add: safe_def walk)
  qed
next
  case (block p stmts)
  show ?case
  proof (cases "tok_type (cur p) = RBrace \<or> tok_type (cur p) = EndOfFile")
    case True
    with block.prems show ?thesis by (subst body_loop_eq) (auto simp: safe_def)
  next
    case False
    with block have "safe (parse_statement p)" by simp
    then have "returns (parse_statement p)
        (\<lambda>(s, p1). returns (body_loop p1 (stmts @ [s])) (\<lambda>(ss, p'). parser_inv p'))"
      using False block by (intro returns_safeI) (simp_all add: safe_def)
    with False block.prems show ?thesis by (subst body_loop_eq) (simp add: safe_def)
  qed
qed

lemma parse_loop_safe: "parser_inv p \<Longrightarrow> safe (parse_loop p stmts)"
proof (induction p stmts rule: parse_loop_induct)
  case (round p stmts)
  show ?case
  proof (cases "tok_type (cur p) = EndOfFile")
    case True
    with round.prems show ?thesis by (subst parse_loop_eq) (simp add: safe_def)
  next
    case False
    from round.prems have "safe (parse_statement p)" by (rule parse_safe_all)
    then have "returns (parse_statement p)
        (\<lambda>(s, p1). returns (parse_loop p1 (stmts @ [s])) (\<lambda>(ss, p'). parser_inv p'))"
      using False round by (intro returns_safeI) (simp_all add: safe_def)
    with False round.prems show ?thesis by (subst parse_loop_eq) (simp add: safe_def)
  qed
qed

lemma parse_safe: "parser_inv p \<Longrightarrow> safe (parse p)"
  by (simp add: parse_def parse_loop_safe)

section \<open>Well-formed statements\<close>

text \<open>
  The interpreter reads \<^verbatim>\<open>parts[0]\<close> of a setter statement and \<^verbatim>\<open>isLiteral[i]\<close> for every
  index of \<^verbatim>\<open>parts\<close>: the two vectors have the same length and are not empty.
\<close>

fun wf_statement :: "Statement \<Rightarrow> bool" where
  "wf_statement (SetStatement var b vs lits r) \<longleftrightarrow> vs \<noteq> [] \<and> length lits = length vs"
| "wf_statement (SetDefaultStatement var vs lits r) \<longleftrightarrow> vs \<noteq> [] \<and> length lits = length vs"
| "wf_statement (IfStatement c stmts) \<longleftrightarrow> list_all wf_statement stmts"
| "wf_statement s \<longleftrightarrow> True"

lemma setter_wf: "setter var func vs lits = Inr s \<Longrightarrow> vs \<noteq> [] \<Longrightarrow> length lits = length vs \<Longrightarrow> wf_statement s"
  by (auto simp: setter_def split: if_splits option.splits)

lemma parse_set_or_read_wf:
  assumes "tok_type (cur p) \<noteq> EndOfFile" and "parse_set_or_read p = Inr (s, p')"
  shows "wf_statement s"
  using assms(2) unfolding parse_set_or_read_Inr_iff [OF assms(1)]
  by (auto split: if_splits dest!: parts_loop_InrD intro: setter_wf)

lemma parse_other_wf: "parse_other p = Inr (s, p') \<Longrightarrow> wf_statement s"
  by (auto simp: parse_other_Inr_iff dest: parse_set_or_read_wf [rotated])

lemma parse_fixed_wf:
  "parse_macro_def p = Inr (s, p') \<Longrightarrow> wf_statement s"
  "parse_boolean p = Inr (s, p') \<Longrightarrow> wf_statement s"
  "parse_generate p = Inr (s, p') \<Longrightarrow> wf_statement s"
  "parse_print p = Inr (s, p') \<Longrightarrow> wf_statement s"
  "parse_string p = Inr (s, p') \<Longrightarrow> wf_statement s"
  by (auto simp: parse_macro_def_Inr_iff parse_boolean_Inr_iff parse_generate_Inr_iff
      parse_print_Inr_iff parse_string_Inr_iff split: if_splits)

lemma parse_wf_all:
  "parse_statement p = Inr (s, p') \<Longrightarrow> wf_statement s"
  "parse_if p = Inr (s, p') \<Longrightarrow> wf_statement s"
  "body_loop p stmts = Inr (ss, p') \<Longrightarrow> list_all wf_statement stmts \<Longrightarrow> list_all wf_statement ss"
proof (induction p and p and p stmts arbitrary: s p' and s p' and ss p' rule: parse_induct)
  case (statement p)
  from statement.prems show ?case
    by (auto simp: parse_statement_eq Let_def split: if_splits
        intro: parse_fixed_wf parse_other_wf statement.IH)
next
  case (conditional p)
  from conditional.prems show ?case
    by (auto simp: parse_if_Inr_iff dest: conditional.IH)
next
  case (block p stmts)
  note run = block.prems(1) [unfolded body_loop_Inr_iff [of p]]
  show ?case
  proof (cases "tok_type (cur p) = RBrace \<or> tok_type (cur p) = EndOfFile")
    case False
    with run obtain s p1 where one: "parse_statement p = Inr (s, p1)"
      and more: "body_loop p1 (stmts @ [s]) = Inr (ss, p')" by auto
    from False run one have "wf_statement s" by (simp add: block.IH(1))
    with block.IH(2) [OF _ _ _ one more] False run block.prems(2) show ?thesis by simp
  qed (use run block.prems(2) in auto)
qed

lemma parse_loop_InrD:
  assumes "parse_loop p stmts = Inr (ss, p')"
  shows "along p p' \<and> in_range p' \<and> tok_type (cur p') = EndOfFile
     \<and> (list_all wf_statement stmts \<longrightarrow> list_all wf_statement ss)"
  using assms
proof (induction p stmts rule: parse_loop_induct)
  case (round p stmts)
  note run = round.prems [unfolded parse_loop_Inr_iff [of p]]
  show ?case
  proof (cases "tok_type (cur p) = EndOfFile")
    case False
    with run obtain s p1 where one: "parse_statement p = Inr (s, p1)"
      and more: "parse_loop p1 (stmts @ [s]) = Inr (ss, p')" by auto
    from one have "ahead p p1" and "wf_statement s"
      by (rule parse_statement_ahead, rule parse_wf_all(1))
    with round.IH [OF _ False one more] run show ?thesis
      by (auto intro: ahead_imp_along ahead_along_trans)
  qed (use run in simp)
qed

section \<open>Running the parser\<close>

text \<open>
  \<open>tok ty v\<close> is a token of line 1; with the lemmas \<open>parser_eval\<close> the simplifier runs the
  parser on a list of such tokens.
\<close>

definition tok :: "TokenType \<Rightarrow> string \<Rightarrow> Token" where
  "tok ty v = \<lparr>tok_type = ty, tok_value = v, tok_line = 1, tok_column = 1\<rparr>"

lemmas parser_eval =
  parse_def parse_loop_eq parse_statement_eq body_loop_eq parse_if.simps parse_other_def
  parse_macro_def_def parse_boolean_def parse_generate_def parse_print_def parse_string_def
  parse_set_or_read_def parts_loop.simps parse_part_def backends_loop.simps parse_backend_def
  parse_backend_enum_def concat_loop.simps parse_operand_def
  consume_eq match_token_eq check_eq advance_token_eq peek_token_eq previous_token_def
  line_error_def
  in_range_def cur_def step_def Parser_new_def tok_def Let_def starts_with_def quoted_def

definition boolean_script :: "Token list" where
  "boolean_script = [tok Keyword ''boolean'', tok Identifier ''f'', tok Equals ''='',
     tok Boolean ''TRUE'', tok Semicolon '';'', tok EndOfFile []]"

definition stray_script :: "Token list" where
  "stray_script = [tok Keyword ''Macro'', tok Identifier ''x'', tok Dot ''.'',
     tok Keyword ''lazy'', tok LParen ''('', tok RParen '')'', tok Semicolon '';'', tok EndOfFile []]"

lemma parse_boolean_sample:
  "parse (Parser_new boolean_script) =
     Inr ([BooleanDeclaration ''f'' True], \<lparr>tokens = boolean_script, current = 5\<rparr>)"
  by (simp add: boolean_script_def parser_eval)

lemma parse_if_sample:
  "\<exists>p'. parse (Parser_new [tok Keyword ''if'', tok LParen ''('', tok Identifier ''f'', tok RParen '')'',
      tok LBrace ''{'', tok Identifier ''x'', tok Dot ''.'', tok Keyword ''set_glsl'', tok LParen ''('',
      tok String ''v'', tok RParen '')'', tok Semicolon '';'', tok RBrace ''}'', tok EndOfFile []]) =
   Inr ([IfStatement ''f'' [SetStatement ''x'' ''glsl'' [''v''] [True] False]], p')"
  by (simp add: parser_eval)

lemma parse_error_sample:
  "parse (Parser_new [tok Keyword ''boolean'', tok Identifier ''f'', tok Semicolon '';'', tok EndOfFile []]) =
   Inl (RuntimeError ''Expected '=' at line 1'')"
  by (simp add: parser_eval run_simps)

lemma parse_stray_sample:
  "parse_statement (Parser_new stray_script) =
     Inr (LazyStatement ''x'', \<lparr>tokens = stray_script, current = 7\<rparr>)"
  by (simp add: stray_script_def parser_eval)

lemma script_facts:
  "eof_terminated boolean_script" "length boolean_script = 6"
  "in_range (Parser_new stray_script)" "length stray_script = 8"
  "cur (Parser_new stray_script) = tok Keyword ''Macro''"
  by (simp_all add: eof_terminated_def boolean_script_def stray_script_def in_range_def cur_def
      Parser_new_def tok_def)

section \<open>What the parser guarantees\<close>

text \<open>
  C3. On a token list that ends with \<open>EndOfFile\<close> the parser never reads outside the
  vector: \<open>parse\<close> throws a \<^verbatim>\<open>std::runtime_error\<close>, or it returns with the index on an
  \<open>EndOfFile\<close> token of the same list.
\<close>

theorem parse_stays_in_token_list:
  assumes "eof_terminated toks"
  shows "(\<exists>msg. parse (Parser_new toks) = Inl (RuntimeError msg))
     \<or> (\<exists>stmts p'. parse (Parser_new toks) = Inr (stmts, p') \<and> tokens p' = toks
           \<and> current p' < length toks \<and> tok_type (toks ! current p') = EndOfFile)"
proof (cases "parse (Parser_new toks)")
  case (Inl e)
  with parse_safe [OF parser_inv_new [OF assms]] show ?thesis by (simp add: safe_def)
next
  case (Inr r)
  obtain stmts p' where r: "r = (stmts, p')" by (cases r)
  with Inr have "parse_loop (Parser_new toks) [] = Inr (stmts, p')" by (simp add: parse_def)
  from parse_loop_InrD [OF this] have "tokens p' = toks" and "in_range p'"
    and "tok_type (cur p') = EndOfFile"
    by (auto dest: alongD simp: Parser_new_def)
  with Inr r show ?thesis by (auto simp: in_range_def cur_def)
qed

theorem parse_stays_in_token_list_witness:
  "\<exists>stmts p'. parse (Parser_new boolean_script) = Inr (stmts, p')
     \<and> current p' < 6 \<and> stmts = [BooleanDeclaration ''f'' True]"
  using parse_stays_in_token_list [of boolean_script]
  by (simp add: parse_boolean_sample script_facts)

text \<open>
  C7. Every statement parser moves forward: a successful \<open>parse_statement\<close> leaves the
  same token list with the index strictly further, at most one past the end, so the
  number of tokens left decreases. This is the measure under which the loops of \<open>parse\<close>
  and \<open>parse_if\<close> and the recursion through nested blocks terminate.
\<close>

theorem parse_statement_moves_forward:
  assumes "parse_statement p = Inr (s, p')"
  shows "tokens p' = tokens p \<and> current p < current p' \<and> current p' \<le> length (tokens p)
     \<and> rest p' < rest p"
  using parse_statement_ahead [OF assms] by (simp add: aheadD)

theorem parse_statement_moves_forward_witness:
  "current (Parser_new stray_script) < 7 \<and> rest \<lparr>tokens = stray_script, current = 7\<rparr> = 1"
  using parse_statement_moves_forward [OF parse_stray_sample]
  by (simp add: rest_def Parser_new_def script_facts)

text \<open>
  C11. The statements that \<open>parse\<close> returns are well formed, at every depth of nesting:
  a setter statement has at least one part and as many literal flags as parts, which is
  what the interpreter assumes when it reads \<^verbatim>\<open>parts[0]\<close> and \<^verbatim>\<open>isLiteral[i]\<close>.
\<close>

theorem parse_well_formed:
  assumes "parse p = Inr (stmts, p')"
  shows "list_all wf_statement stmts"
  using parse_loop_InrD [of p "[]" stmts p'] assms by (simp add: parse_def)

theorem parse_well_formed_witness:
  "list_all wf_statement [BooleanDeclaration ''f'' True]"
  using parse_well_formed [OF parse_boolean_sample] .

text \<open>
  C28. A keyword that starts no statement is skipped: when the token under the index is a
  keyword other than \<^verbatim>\<open>macrodef\<close>, \<^verbatim>\<open>boolean\<close>, \<^verbatim>\<open>if\<close>, \<^verbatim>\<open>SYSTEM\<close>, \<^verbatim>\<open>print\<close> and \<^verbatim>\<open>string\<close>,
  \<open>parse_statement\<close> has consumed it in \<^verbatim>\<open>match\<close> and goes on as if the statement started at
  the next token. So \<^verbatim>\<open>Macro x.lazy();\<close> parses as \<^verbatim>\<open>x.lazy();\<close>.
\<close>

theorem parse_statement_skips_keyword:
  assumes "in_range p" and "tok_type (cur p) = Keyword"
    and "tok_value (cur p) \<notin> set [''macrodef'', ''boolean'', ''if'', ''SYSTEM'', ''print'', ''string'']"
  shows "parse_statement p = parse_other (step p)"
  using assms by (simp add: parse_statement_eq)

theorem parse_statement_skips_keyword_witness:
  "parse_other (step (Parser_new stray_script)) =
     Inr (LazyStatement ''x'', \<lparr>tokens = stray_script, current = 7\<rparr>)"
  using parse_statement_skips_keyword [of "Parser_new stray_script"]
  by (simp add: parse_stray_sample script_facts tok_def)

text \<open>
  C29. A token that is neither a keyword nor an identifier starts no statement:
  \<open>parse_statement\<close> throws \<^verbatim>\<open>Unknown statement at line\<close> with the line of that token, and
  consumes nothing.
\<close>

theorem parse_statement_unknown:
  assumes "in_range p" and "tok_type (cur p) \<noteq> Keyword" and "tok_type (cur p) \<noteq> Identifier"
  shows "parse_statement p =
     Inl (RuntimeError (''Unknown statement at line '' @ to_string (tok_line (cur p))))"
  using assms by (simp add: parse_statement_eq parse_other_def check_eq peek_token_eq)

theorem parse_statement_unknown_witness:
  "parse_statement (Parser_new [tok Semicolon '';'', tok EndOfFile []]) =
     Inl (RuntimeError ''Unknown statement at line 1'')"
  using parse_statement_unknown [of "Parser_new [tok Semicolon '';'', tok EndOfFile []]"]
  by (simp add: in_range_def cur_def Parser_new_def tok_def run_simps)

text \<open>
  C30. The statement that a setter builds is determined by the name of the method: the
  eight names \<^verbatim>\<open>set_\<close>\<open>b\<close> and \<^verbatim>\<open>read_\<close>\<open>b\<close> for a backend \<open>b\<close> of \<^verbatim>\<open>glsl\<close>, \<^verbatim>\<open>hlsl\<close>, \<^verbatim>\<open>msl\<close>, \<^verbatim>\<open>spirv\<close> give
  a \<open>SetStatement\<close> for \<open>b\<close>, \<^verbatim>\<open>set_default\<close> and \<^verbatim>\<open>read_default\<close> a \<open>SetDefaultStatement\<close>, and
  the \<^verbatim>\<open>read_\<close> names set the flag \<^verbatim>\<open>isReadFromFile\<close>.
\<close>

theorem setter_by_name:
  assumes "b \<in> set [''glsl'', ''hlsl'', ''msl'', ''spirv'']"
  shows "setter var (''set_'' @ b) vs lits = Inr (SetStatement var b vs lits False)
     \<and> setter var (''read_'' @ b) vs lits = Inr (SetStatement var b vs lits True)
     \<and> setter var ''set_default'' vs lits = Inr (SetDefaultStatement var vs lits False)
     \<and> setter var ''read_default'' vs lits = Inr (SetDefaultStatement var vs lits True)"
  using assms by (auto simp: setter_def starts_with_def)

theorem setter_by_name_witness:
  "setter ''x'' ''set_glsl'' [''v''] [True] = Inr (SetStatement ''x'' ''glsl'' [''v''] [True] False)
     \<and> setter ''x'' ''read_glsl'' [''v''] [True] = Inr (SetStatement ''x'' ''glsl'' [''v''] [True] True)"
  using setter_by_name [of "''glsl''" "''x''" "[''v'']" "[True]"] by simp

end
