(* ===== verification/Slayout_Interpreter.thy ===== *)
theory Slayout_Interpreter
  imports Slayout_Parser_Safety
begin

text \<open>
  The interpreter of \<^verbatim>\<open>src/include/interpreter.h\<close> and \<^verbatim>\<open>src/src/interpreter.cpp\<close>. The struct
  \<^verbatim>\<open>Macro\<close> and the class \<^verbatim>\<open>Interpreter\<close> are records; the \<^verbatim>\<open>std::map\<close> members are partial
  functions and the \<^verbatim>\<open>std::set\<close> of backends is a set. The record of the interpreter
  also holds what the run has written to \<^verbatim>\<open>std::cout\<close> and \<^verbatim>\<open>std::cerr\<close>. The files that
  \<^verbatim>\<open>load_file\<close> can open are a partial function from paths to contents, an argument of
  every operation that may read. \<open>execute\<close> is \<^verbatim>\<open>Interpreter::execute\<close>, one equation per
  statement class in the order of the \<^verbatim>\<open>dynamic_pointer_cast\<close> chain, and returns the object
  after the call or the exception. The final \<^verbatim>\<open>else\<close> of that chain (a statement of no known
  class) has no counterpart: the datatype \<open>Statement\<close> has no other constructor.

  The lemmas: the index loop that builds the value of a setter equals a recursion over
  the list of parts; \<open>interp_inv\<close> (every variable names a macro of the table, every macro
  is stored under its own name, the keys of its backend values are lower case, only the
  four backend names are requested) is kept by every statement; on well-formed
  statements no vector is read outside its bounds and \<^verbatim>\<open>std::out_of_range\<close> is thrown exactly
  for an undeclared variable.
\<close>

section \<open>The macro table and the interpreter object\<close>

record Macro =
  macroName :: string
  lazy :: bool
  backendValues :: "string \<rightharpoonup> string"
  defaultValue :: string

definition Macro_new :: "string \<Rightarrow> Macro" where
  "Macro_new n = \<lparr>macroName = n, lazy = False, backendValues = Map.empty, defaultValue = []\<rparr>"

record Interpreter =
  macros :: "string \<rightharpoonup> Macro"
  bools :: "string \<rightharpoonup> bool"
  requiredBackends :: "string set"
  varToMacroName :: "string \<rightharpoonup> string"
  strings :: "string \<rightharpoonup> string"
  cout :: "string list"
  cerr :: "string list"

definition Interpreter_new :: Interpreter where
  "Interpreter_new = \<lparr>macros = Map.empty, bools = Map.empty, requiredBackends = {},
     varToMacroName = Map.empty, strings = Map.empty, cout = [], cerr = []\<rparr>"

type_synonym files = "string \<rightharpoonup> string"

definition to_lower :: "string \<Rightarrow> string" where
  "to_lower s = map tolower s"

definition load_file :: "files \<Rightarrow> string \<Rightarrow> string result" where
  "load_file fs path =
     (case fs path of None \<Rightarrow> Inl (RuntimeError (''Failed to read file: '' @ path))
      | Some content \<Rightarrow> Inr content)"

function concat_parts ::
  "(string \<rightharpoonup> string) \<Rightarrow> string list \<Rightarrow> bool list \<Rightarrow> nat \<Rightarrow> string \<Rightarrow> string result"
where
  "concat_parts strs vs lits i acc =
     (if i < length vs then
        (if i < length lits then
           (if lits ! i then concat_parts strs vs lits (i + 1) (acc @ vs ! i)
            else (case strs (vs ! i) of
                    None \<Rightarrow> Inl (RuntimeError (''Undefined string variable: '' @ vs ! i))
                  | Some s \<Rightarrow> concat_parts strs vs lits (i + 1) (acc @ s)))
         else Inl UndefinedBehaviour)
      else Inr acc)"
  by pat_completeness auto
termination
  by (relation "measure (\<lambda>(strs, vs, lits, i, acc). length vs - i)") auto

declare concat_parts.simps [simp del]

definition compute_value ::
  "string \<Rightarrow> files \<Rightarrow> (string \<rightharpoonup> string) \<Rightarrow> string list \<Rightarrow> bool list \<Rightarrow> bool \<Rightarrow> string result"
where
  "compute_value msg fs strs vs lits isRead =
     (if isRead then
        (if vs = [] then Inl (RuntimeError msg)
         else if lits = [] then Inl UndefinedBehaviour
         else if \<not> lits ! 0 then Inl (RuntimeError msg)
         else load_file fs (vs ! 0))
      else concat_parts strs vs lits 0 [])"

definition backend_name :: "Backend \<Rightarrow> string option" where
  "backend_name b =
     (case b of GLSL \<Rightarrow> Some ''glsl'' | HLSL \<Rightarrow> Some ''hlsl'' | MSL \<Rightarrow> Some ''msl''
      | SPIRV \<Rightarrow> Some ''spirv'' | UNKNOWN \<Rightarrow> None)"

fun select_backends :: "Backend list \<Rightarrow> string set \<Rightarrow> string set" where
  "select_backends [] req = req"
| "select_backends (b # bs) req =
     select_backends bs (case backend_name b of Some n \<Rightarrow> insert n req | None \<Rightarrow> req)"

fun execute :: "files \<Rightarrow> Statement \<Rightarrow> Interpreter \<Rightarrow> Interpreter result"
  and execute_block :: "files \<Rightarrow> Statement list \<Rightarrow> Interpreter \<Rightarrow> Interpreter result"
where
  "execute fs (MacroDefStatement var mname) st =
     (if macros st mname \<noteq> None then Inl (RuntimeError (''Duplicate macro name: '' @ mname))
      else Inr (st\<lparr>varToMacroName := (varToMacroName st)(var \<mapsto> mname),
                   macros := (macros st)(mname \<mapsto> Macro_new mname)\<rparr>))"
| "execute fs (SetStatement var b vs lits isRead) st =
     rbind (map_at (varToMacroName st) var) (\<lambda>mname.
     rbind (map_at (macros st) mname) (\<lambda>macro.
     rbind (compute_value ''Expected literal path in read_*'' fs (strings st) vs lits isRead) (\<lambda>v.
       Inr (st\<lparr>macros := (macros st)(mname \<mapsto>
              macro\<lparr>backendValues := (backendValues macro)(to_lower b \<mapsto> v)\<rparr>)\<rparr>))))"
| "execute fs (SetDefaultStatement var vs lits isRead) st =
     rbind (map_at (varToMacroName st) var) (\<lambda>mname.
     rbind (map_at (macros st) mname) (\<lambda>macro.
     rbind (compute_value ''Expected literal path in read_default'' fs (strings st) vs lits isRead)
       (\<lambda>v. Inr (st\<lparr>macros := (macros st)(mname \<mapsto> macro\<lparr>defaultValue := v\<rparr>)\<rparr>))))"
| "execute fs (LazyStatement var) st =
     rbind (map_at (varToMacroName st) var) (\<lambda>mname.
     rbind (map_at (macros st) mname) (\<lambda>macro.
       Inr (st\<lparr>macros := (macros st)(mname \<mapsto> macro\<lparr>lazy := True\<rparr>)\<rparr>)))"
| "execute fs (BooleanDeclaration n v) st = Inr (st\<lparr>bools := (bools st)(n \<mapsto> v)\<rparr>)"
| "execute fs (IfStatement c stmts) st =
     (if bools st c = Some True then execute_block fs stmts st else Inr st)"
| "execute fs GenerateAllStatement st =
     Inr (st\<lparr>requiredBackends := {''glsl'', ''hlsl'', ''msl'', ''spirv''}\<rparr>)"
| "execute fs (GenerateSelectStatement bs) st =
     Inr (st\<lparr>requiredBackends := select_backends bs (requiredBackends st)\<rparr>)"
| "execute fs (PrintStatement e) st =
     (if e = ''list_backends''
      then Inr (st\<lparr>cout := cout st @ [''Supported backends: glsl, hlsl, msl, spirv'' @ [newline]]\<rparr>)
      else Inr (st\<lparr>cerr := cerr st @ [''Unknown print expression: '' @ e @ [newline]]\<rparr>))"
| "execute fs (StringDeclaration n e) st = Inr (st\<lparr>strings := (strings st)(n \<mapsto> e)\<rparr>)"
| "execute_block fs [] st = Inr st"
| "execute_block fs (s # ss) st = rbind (execute fs s st) (execute_block fs ss)"

definition interpret_statements :: "files \<Rightarrow> Statement list \<Rightarrow> Interpreter \<Rightarrow> Interpreter result" where
  "interpret_statements fs statements st = execute_block fs statements st"

definition get_macros :: "Interpreter \<Rightarrow> (string \<rightharpoonup> Macro)" where
  "get_macros st = macros st"

definition get_required_backends :: "Interpreter \<Rightarrow> string set" where
  "get_required_backends st = requiredBackends st"

section \<open>Properties of the operations\<close>

subsection \<open>The value of a setter\<close>

fun join_parts :: "(string \<rightharpoonup> string) \<Rightarrow> (string \<times> bool) list \<Rightarrow> string result" where
  "join_parts strs [] = Inr []"
| "join_parts strs ((v, lit) # ps) =
     rbind (if lit then Inr v
            else (case strs v of None \<Rightarrow> Inl (RuntimeError (''Undefined string variable: '' @ v))
                  | Some s \<Rightarrow> Inr s))
       (\<lambda>x. rbind (join_parts strs ps) (\<lambda>r. Inr (x @ r)))"

lemma concat_parts_done [simp]: "length vs \<le> i \<Longrightarrow> concat_parts strs vs lits i acc = Inr acc"
  by (subst concat_parts.simps) simp

lemma concat_parts_step:
  "i < length vs \<Longrightarrow> i < length lits \<Longrightarrow>
     concat_parts strs vs lits i acc =
       (if lits ! i then concat_parts strs vs lits (Suc i) (acc @ vs ! i)
        else (case strs (vs ! i) of
                None \<Rightarrow> Inl (RuntimeError (''Undefined string variable: '' @ vs ! i))
              | Some s \<Rightarrow> concat_parts strs vs lits (Suc i) (acc @ s)))"
  by (subst concat_parts.simps) (simp split: option.splits)

lemma concat_parts_outside:
  "i < length vs \<Longrightarrow> length lits \<le> i \<Longrightarrow> concat_parts strs vs lits i acc = Inl UndefinedBehaviour"
  by (subst concat_parts.simps) simp

lemma concat_parts_join:
  assumes "length lits = length vs" and "i \<le> length vs"
  shows "concat_parts strs vs lits i acc =
     rbind (join_parts strs (drop i (zip vs lits))) (\<lambda>r. Inr (acc @ r))"
  using assms(2)
proof (induction "length vs - i" arbitrary: i acc)
  case 0
  with assms(1) show ?case by simp
next
  case (Suc n)
  then have less: "i < length vs" "i < length lits" using assms(1) by simp_all
  then have "drop i (zip vs lits) = (vs ! i, lits ! i) # drop (Suc i) (zip vs lits)"
    by (simp add: Cons_nth_drop_Suc [symmetric])
  moreover from Suc less have "concat_parts strs vs lits (Suc i) acc' =
      rbind (join_parts strs (drop (Suc i) (zip vs lits))) (\<lambda>r. Inr (acc' @ r))" for acc'
    by (intro Suc.hyps(1)) simp_all
  ultimately show ?case
    using less by (simp add: concat_parts_step rbind_assoc split: option.splits)
qed

subsection \<open>Selecting backends\<close>

definition backend_names :: "string set" where
  "backend_names = {''glsl'', ''hlsl'', ''msl'', ''spirv''}"

lemma backend_name_in: "backend_name b = Some n \<Longrightarrow> n \<in> backend_names"
  by (auto simp: backend_name_def backend_names_def split: Backend.splits)

lemma select_backends_eq:
  "select_backends bs req = req \<union> {n. \<exists>b \<in> set bs. backend_name b = Some n}"
  by (induction bs arbitrary: req) (auto split: option.splits)

lemma select_backends_mono: "req \<subseteq> select_backends bs req"
  by (auto simp: select_backends_eq)

lemma select_backends_subset:
  "req \<subseteq> backend_names \<Longrightarrow> select_backends bs req \<subseteq> backend_names"
  by (auto simp: select_backends_eq dest: backend_name_in)

lemma to_lower_idem [simp]: "to_lower (to_lower s) = to_lower s"
  by (simp add: to_lower_def)

lemma to_lower_backend_names: "n \<in> backend_names \<Longrightarrow> to_lower n = n"
  by (auto simp: backend_names_def to_lower_def tolower_def)

subsection \<open>The invariant of the interpreter\<close>

definition macro_inv :: "string \<Rightarrow> Macro \<Rightarrow> bool" where
  "macro_inv n m \<longleftrightarrow> macroName m = n \<and> (\<forall>k \<in> dom (backendValues m). to_lower k = k)"

definition interp_inv :: "Interpreter \<Rightarrow> bool" where
  "interp_inv st \<longleftrightarrow>
     ran (varToMacroName st) \<subseteq> dom (macros st)
     \<and> (\<forall>n m. macros st n = Some m \<longrightarrow> macro_inv n m)
     \<and> requiredBackends st \<subseteq> backend_names"

lemma interp_inv_new [simp]: "interp_inv Interpreter_new"
  by (simp add: interp_inv_def Interpreter_new_def)

lemma macro_inv_new [simp]: "macro_inv n (Macro_new n)"
  by (simp add: macro_inv_def Macro_new_def)

lemma macro_inv_updates [simp]:
  "macro_inv n m \<Longrightarrow> macro_inv n (m\<lparr>lazy := l\<rparr>)"
  "macro_inv n m \<Longrightarrow> macro_inv n (m\<lparr>defaultValue := d\<rparr>)"
  "macro_inv n m \<Longrightarrow> macro_inv n (m\<lparr>backendValues := (backendValues m)(to_lower b \<mapsto> v)\<rparr>)"
  by (auto simp: macro_inv_def)

lemma interp_invD:
  assumes "interp_inv st"
  shows "varToMacroName st var = Some n \<Longrightarrow> \<exists>m. macros st n = Some m"
    and "macros st n = Some m \<Longrightarrow> macro_inv n m"
    and "requiredBackends st \<subseteq> backend_names"
  using assms by (auto simp: interp_inv_def ran_def)

lemma interp_inv_macro_update:
  assumes "interp_inv st" and "macros st n = Some m" and "macro_inv n m'"
  shows "interp_inv (st\<lparr>macros := (macros st)(n \<mapsto> m')\<rparr>)"
  using assms by (auto simp: interp_inv_def)

lemma interp_inv_macro_def:
  assumes "interp_inv st"
  shows "interp_inv (st\<lparr>varToMacroName := (varToMacroName st)(var \<mapsto> n),
     macros := (macros st)(n \<mapsto> Macro_new n)\<rparr>)"
  using assms by (auto simp: interp_inv_def ran_def)

lemma interp_inv_other [simp]:
  "interp_inv (st\<lparr>bools := bs\<rparr>) = interp_inv st"
  "interp_inv (st\<lparr>strings := ss\<rparr>) = interp_inv st"
  "interp_inv (st\<lparr>cout := out\<rparr>) = interp_inv st"
  "interp_inv (st\<lparr>cerr := err\<rparr>) = interp_inv st"
  by (simp_all add: interp_inv_def)

lemma interp_inv_required:
  "interp_inv st \<Longrightarrow> req \<subseteq> backend_names \<Longrightarrow> interp_inv (st\<lparr>requiredBackends := req\<rparr>)"
  by (simp add: interp_inv_def)

lemma execute_inv_all:
  "interp_inv st \<Longrightarrow> execute fs s st = Inr st' \<Longrightarrow> interp_inv st'"
  "interp_inv st \<Longrightarrow> execute_block fs ss st = Inr st' \<Longrightarrow> interp_inv st'"
proof (induction fs s st and fs ss st arbitrary: st' and st' rule: execute_execute_block.induct)
  case (1 fs var mname st)
  then show ?case by (auto split: if_splits intro: interp_inv_macro_def)
next
  case (2 fs var b vs lits isRead st)
  then show ?case
    by (auto simp: rbind_eq_Inr_iff map_at_Inr_iff intro!: interp_inv_macro_update
        dest: interp_invD(2))
next
  case (3 fs var vs lits isRead st)
  then show ?case
    by (auto simp: rbind_eq_Inr_iff map_at_Inr_iff intro!: interp_inv_macro_update
        dest: interp_invD(2))
next
  case (4 fs var st)
  then show ?case
    by (auto simp: rbind_eq_Inr_iff map_at_Inr_iff intro!: interp_inv_macro_update
        dest: interp_invD(2))
next
  case (7 fs st)
  then show ?case by (auto intro!: interp_inv_required simp: backend_names_def)
next
  case (8 fs bs st)
  then show ?case
    by (auto intro!: interp_inv_required select_backends_subset dest: interp_invD(3))
next
  case (12 fs s ss st)
  then show ?case by (auto simp: rbind_eq_Inr_iff)
qed (auto split: if_splits)

subsection \<open>Errors\<close>

lemma join_parts_error:
  "join_parts strs ps = Inl e \<Longrightarrow>
     \<exists>v. (v, False) \<in> set ps \<and> strs v = None \<and> e = RuntimeError (''Undefined string variable: '' @ v)"
  by (induction strs ps rule: join_parts.induct)
    (auto simp: rbind_eq_Inl_iff split: if_splits option.splits)

lemma load_file_error:
  "load_file fs path = Inl e \<longleftrightarrow> fs path = None \<and> e = RuntimeError (''Failed to read file: '' @ path)"
  by (auto simp: load_file_def split: option.splits)

lemma compute_value_error:
  assumes "compute_value msg fs strs vs lits isRead = Inl e"
    and "vs \<noteq> []" and "length lits = length vs"
  shows "\<exists>text. e = RuntimeError text"
  using assms
  by (auto simp: compute_value_def concat_parts_join load_file_error rbind_eq_Inl_iff
      split: if_splits dest: join_parts_error)

lemma execute_Inl_all:
  "interp_inv st \<Longrightarrow> wf_statement s \<Longrightarrow> execute fs s st = Inl e \<Longrightarrow>
     e = OutOfRange \<or> (\<exists>text. e = RuntimeError text)"
  "interp_inv st \<Longrightarrow> list_all wf_statement ss \<Longrightarrow> execute_block fs ss st = Inl e \<Longrightarrow>
     e = OutOfRange \<or> (\<exists>text. e = RuntimeError text)"
proof (induction fs s st and fs ss st rule: execute_execute_block.induct)
  case (12 fs s ss st)
  then show ?case
    by (auto simp: rbind_eq_Inl_iff dest: execute_inv_all(1))
qed (auto simp: rbind_eq_Inl_iff map_at_Inl_iff map_at_Inr_iff split: if_splits
    dest: compute_value_error)

lemma concat_parts_not_OutOfRange: "concat_parts strs vs lits i acc \<noteq> Inl OutOfRange"
proof (induction strs vs lits i acc rule: concat_parts.induct)
  case (1 strs vs lits i acc)
  then show ?case
    by (subst concat_parts.simps) (auto split: option.splits)
qed

lemma compute_value_not_OutOfRange [simp]:
  "compute_value msg fs strs vs lits isRead \<noteq> Inl OutOfRange"
  by (auto simp: compute_value_def load_file_error concat_parts_not_OutOfRange)

lemma execute_undeclared:
  assumes "interp_inv st"
  shows "execute fs (LazyStatement var) st = Inl OutOfRange \<longleftrightarrow> varToMacroName st var = None"
    and "execute fs (SetStatement var b vs lits isRead) st = Inl OutOfRange \<longleftrightarrow>
           varToMacroName st var = None"
    and "execute fs (SetDefaultStatement var vs lits isRead) st = Inl OutOfRange \<longleftrightarrow>
           varToMacroName st var = None"
  using assms
  by (auto simp: rbind_eq_Inl_iff map_at_Inl_iff map_at_Inr_iff dest: interp_invD(1))

subsection \<open>What the statements do\<close>

lemma execute_if_false: "bools st c \<noteq> Some True \<Longrightarrow> execute fs (IfStatement c stmts) st = Inr st"
  by simp

lemma execute_if_true:
  "bools st c = Some True \<Longrightarrow> execute fs (IfStatement c stmts) st = execute_block fs stmts st"
  by simp

lemma execute_block_append:
  "execute_block fs (xs @ ys) st = rbind (execute_block fs xs st) (execute_block fs ys)"
  by (induction xs arbitrary: st) (simp_all add: rbind_assoc cong: rbind_cong)

lemma execute_duplicate:
  "macros st n \<noteq> None \<Longrightarrow>
     execute fs (MacroDefStatement var n) st = Inl (RuntimeError (''Duplicate macro name: '' @ n))"
  by simp

lemma execute_set_lookup:
  assumes "execute fs (SetStatement var b vs lits isRead) st = Inr st'"
  obtains n m v where "varToMacroName st var = Some n" and "macros st n = Some m"
    and "compute_value ''Expected literal path in read_*'' fs (strings st) vs lits isRead = Inr v"
    and "macros st' = (macros st)(n \<mapsto> m\<lparr>backendValues := (backendValues m)(to_lower b \<mapsto> v)\<rparr>)"
  using assms by (auto simp: rbind_eq_Inr_iff map_at_Inr_iff)

lemma compute_value_literal [simp]:
  "compute_value msg fs strs [v] [True] False = Inr v"
  by (simp add: compute_value_def concat_parts_step)

lemma compute_value_read [simp]:
  "compute_value msg fs strs (path # vs) (True # lits) True = load_file fs path"
  by (simp add: compute_value_def)

section \<open>Running the interpreter\<close>

lemmas interpreter_eval =
  interpret_statements_def compute_value_def concat_parts.simps load_file_def map_at_def
  Macro_new_def Interpreter_new_def to_lower_def tolower_def backend_name_def

definition macro_script :: "Statement list" where
  "macro_script =
     [MacroDefStatement ''X'' ''FOO'', SetStatement ''X'' ''glsl'' [''a''] [True] False,
      LazyStatement ''X'', GenerateSelectStatement [GLSL, HLSL]]"

definition macro_state :: Interpreter where
  "macro_state =
     \<lparr>macros = [''FOO'' \<mapsto> \<lparr>macroName = ''FOO'', lazy = True,
           backendValues = [''glsl'' \<mapsto> ''a''], defaultValue = []\<rparr>],
      bools = Map.empty, requiredBackends = {''glsl'', ''hlsl''},
      varToMacroName = [''X'' \<mapsto> ''FOO''], strings = Map.empty, cout = [], cerr = []\<rparr>"

lemma interpret_macro_script:
  "interpret_statements fs macro_script Interpreter_new = Inr macro_state"
  by (simp add: macro_script_def macro_state_def interpreter_eval insert_commute)

lemma wf_macro_script: "list_all wf_statement macro_script"
  by (simp add: macro_script_def)

section \<open>What the interpreter guarantees\<close>

text \<open>
  C6. Every run of the interpreter keeps its invariant: after \<open>interpret_statements\<close>
  every declared variable still names a macro of the table, every macro is stored under
  its own name with lower-case backend keys, and only \<^verbatim>\<open>glsl\<close>, \<^verbatim>\<open>hlsl\<close>, \<^verbatim>\<open>msl\<close> and \<^verbatim>\<open>spirv\<close>
  are requested.
\<close>

theorem interpret_keeps_invariant:
  assumes "interp_inv st" and "interpret_statements fs stmts st = Inr st'"
  shows "interp_inv st'"
  using assms by (auto simp: interpret_statements_def dest: execute_inv_all(2))

theorem interpret_keeps_invariant_witness:
  "interp_inv macro_state \<and> requiredBackends macro_state \<subseteq> backend_names"
  using interpret_keeps_invariant [OF interp_inv_new interpret_macro_script]
  by (simp add: interp_invD)

text \<open>
  C9. On well-formed statements the interpreter reads no vector outside its bounds:
  from a state that satisfies the invariant, \<open>interpret_statements\<close> returns, or throws a
  \<^verbatim>\<open>std::runtime_error\<close>, or throws the \<^verbatim>\<open>std::out_of_range\<close> of \<^verbatim>\<open>varToMacroName.at\<close>.
\<close>

theorem interpret_errors:
  assumes "interp_inv st" and "list_all wf_statement stmts"
    and "interpret_statements fs stmts st = Inl e"
  shows "e = OutOfRange \<or> (\<exists>msg. e = RuntimeError msg)"
  using assms by (auto simp: interpret_statements_def dest: execute_Inl_all(2))

theorem interpret_errors_witness:
  "interpret_statements Map.empty [LazyStatement ''X''] Interpreter_new = Inl OutOfRange"
proof -
  have run: "interpret_statements Map.empty [LazyStatement ''X''] Interpreter_new = Inl OutOfRange"
    by (simp add: interpreter_eval)
  from interpret_errors [OF interp_inv_new _ run] run show ?thesis by simp
qed

text \<open>
  C21. A setter, a default or \<^verbatim>\<open>lazy()\<close> on a variable that no \<^verbatim>\<open>macrodef\<close> declared throws
  \<^verbatim>\<open>std::out_of_range\<close> from \<^verbatim>\<open>std::map::at\<close>, and this is the only way that exception arises:
  the second lookup, \<^verbatim>\<open>macros.at\<close>, cannot fail because of the invariant.
\<close>

theorem execute_undeclared_variable:
  assumes "interp_inv st"
  shows "(execute fs (LazyStatement var) st = Inl OutOfRange \<longleftrightarrow> varToMacroName st var = None)
     \<and> (execute fs (SetStatement var b vs lits isRead) st = Inl OutOfRange
           \<longleftrightarrow> varToMacroName st var = None)
     \<and> (execute fs (SetDefaultStatement var vs lits isRead) st = Inl OutOfRange
           \<longleftrightarrow> varToMacroName st var = None)"
  using execute_undeclared [OF assms] by simp

theorem execute_undeclared_variable_witness:
  "execute Map.empty (LazyStatement ''Y'') macro_state = Inl OutOfRange
     \<and> execute Map.empty (LazyStatement ''X'') macro_state \<noteq> Inl OutOfRange"
  using execute_undeclared_variable [of macro_state fs "''Y''"]
    execute_undeclared_variable [of macro_state fs "''X''"]
    interpret_keeps_invariant [OF interp_inv_new interpret_macro_script]
  by (simp add: macro_state_def)

text \<open>
  C31. Two \<^verbatim>\<open>macrodef\<close> statements for the same macro name never both succeed: from any
  state the pair fails with \<^verbatim>\<open>Duplicate macro name\<close>, whatever the two variables are.
\<close>

theorem execute_duplicate_macro:
  "interpret_statements fs [MacroDefStatement x n, MacroDefStatement y n] st =
     Inl (RuntimeError (''Duplicate macro name: '' @ n))"
  by (simp add: interpret_statements_def)

text \<open>
  C32. A condition that is not \<^verbatim>\<open>TRUE\<close> in the boolean table, an undeclared one included,
  is false and not an error: the \<^verbatim>\<open>if\<close> statement leaves the interpreter as it was.
\<close>

theorem execute_if_not_true:
  assumes "bools st c \<noteq> Some True"
  shows "execute fs (IfStatement c stmts) st = Inr st"
  using assms by (rule execute_if_false)

theorem execute_if_not_true_witness:
  "execute Map.empty (IfStatement ''flag'' [BooleanDeclaration ''Z'' True]) Interpreter_new =
     Inr Interpreter_new"
  using execute_if_not_true [of Interpreter_new "''flag''"] by (simp add: Interpreter_new_def)

text \<open>
  C23. \<^verbatim>\<open>generate_select\<close> adds to the requested backends and removes none: the set after
  the statement is the set before it united with the names of the listed backends, the
  \<open>UNKNOWN\<close> ones left out. After \<^verbatim>\<open>generate_all\<close> a \<^verbatim>\<open>generate_select(GLSL)\<close> therefore leaves
  all four backends requested.
\<close>

theorem generate_select_adds:
  "execute fs (GenerateSelectStatement bs) st =
     Inr (st\<lparr>requiredBackends :=
            requiredBackends st \<union> {n. \<exists>b \<in> set bs. backend_name b = Some n}\<rparr>)
   \<and> (\<exists>st'. interpret_statements fs [GenerateAllStatement, GenerateSelectStatement [GLSL]] st = Inr st'
         \<and> requiredBackends st' = {''glsl'', ''hlsl'', ''msl'', ''spirv''})"
  by (auto simp: select_backends_eq interpret_statements_def backend_name_def)

text \<open>
  C18. The loop over the indices of \<^verbatim>\<open>parts\<close> that builds the value of a setter computes
  the concatenation of the parts from left to right, a literal standing for itself and
  an identifier for its entry of the string table, and fails at the first identifier
  that has none: it equals the recursion \<open>join_parts\<close> over the list of parts and flags.
\<close>

theorem concat_parts_join_parts:
  assumes "length lits = length vs"
  shows "concat_parts strs vs lits 0 [] = join_parts strs (zip vs lits)"
  using concat_parts_join [OF assms, of 0 strs "[]"] by simp

theorem concat_parts_join_parts_witness:
  "concat_parts [''s'' \<mapsto> ''b''] [''a'', ''s''] [True, False] 0 [] = Inr ''ab''"
  using concat_parts_join_parts [of "[True, False]" "[''a'', ''s'']" "[''s'' \<mapsto> ''b'']"] by simp

text \<open>
  C19. What a setter stores can be read back: after \<^verbatim>\<open>X.set_b("v")\<close> on a declared variable
  the macro of \<^verbatim>\<open>X\<close> has the value \<^verbatim>\<open>v\<close> under the lower-cased backend name, keeps its name,
  its default and its laziness, and no other macro has changed.
\<close>

theorem set_then_lookup:
  assumes "varToMacroName st var = Some n" and "macros st n = Some m"
  shows "\<exists>st' m'. execute fs (SetStatement var b [v] [True] False) st = Inr st'
     \<and> macros st' n = Some m' \<and> backendValues m' (to_lower b) = Some v
     \<and> macroName m' = macroName m \<and> defaultValue m' = defaultValue m \<and> lazy m' = lazy m
     \<and> (\<forall>k. k \<noteq> n \<longrightarrow> macros st' k = macros st k)"
  using assms by simp

theorem set_then_lookup_witness:
  "\<exists>st' m'. execute Map.empty (SetStatement ''X'' ''HLSL'' [''v''] [True] False) macro_state = Inr st'
     \<and> macros st' ''FOO'' = Some m' \<and> backendValues m' ''hlsl'' = Some ''v''
     \<and> backendValues m' ''glsl'' = Some ''a''"
  using set_then_lookup [of macro_state "''X''" "''FOO''" _ fs "''HLSL''" "''v''"]
  by (auto simp: macro_state_def to_lower_def tolower_def run_simps)

end
