(* ===== verification/Slayout_Shader_Processor.thy ===== *)
theory Slayout_Shader_Processor
  imports Slayout_Interpreter
begin

text \<open>
  The shader processor of \<^verbatim>\<open>src/include/shader_processor.h\<close> and
  \<^verbatim>\<open>src/src/shader_processor.cpp\<close>. \<open>find_macro\<close> is \<^verbatim>\<open>std::regex_search\<close> with the one pattern of
  the program, \<^verbatim>\<open>%([A-Za-z_][A-Za-z0-9_]*)\<close>: the leftmost \<^verbatim>\<open>%\<close> that a letter or an underscore
  follows, with the longest name after it, as the text before the match, the name, and
  the text after it. \<open>expand\<close> is the choice of the replacement (the value for the
  backend, else the default, else the name of a lazy macro, else nothing and a warning),
  \<open>substitute_loop\<close> the \<^verbatim>\<open>while\<close> loop with its two accumulators and \<open>substitute\<close> the loop
  followed by the copy of the remaining text. \<open>process_shader\<close> is the whole function on
  a \<open>World\<close>: the files that can be read, the paths that cannot be opened for writing,
  and the lines written to \<^verbatim>\<open>std::cout\<close> and \<^verbatim>\<open>std::cerr\<close>.

  The lemmas: \<open>find_macro\<close> finds exactly the leftmost longest reference; \<open>substitute\<close>
  equals the reference definition \<open>render\<close>, which has no accumulator; \<open>process_shader\<close>
  changes one file at most.
\<close>

section \<open>Finding a macro reference\<close>

definition name_start :: "char \<Rightarrow> bool" where
  "name_start c \<longleftrightarrow> isalpha c \<or> c = CHR ''_''"

definition name_char :: "char \<Rightarrow> bool" where
  "name_char c \<longleftrightarrow> isalpha c \<or> isdigit c \<or> c = CHR ''_''"

fun find_macro :: "string \<Rightarrow> (string \<times> string \<times> string) option" where
  "find_macro [] = None"
| "find_macro (c # cs) =
     (if c = CHR ''%'' \<and> cs \<noteq> [] \<and> name_start (hd cs)
      then Some ([], takeWhile name_char cs, dropWhile name_char cs)
      else map_option (\<lambda>(pre, n, suf). (c # pre, n, suf)) (find_macro cs))"

definition expand :: "(string \<rightharpoonup> Macro) \<Rightarrow> string \<Rightarrow> string \<Rightarrow> string \<times> string list" where
  "expand macs backendName n =
     (case macs n of
        Some macro \<Rightarrow>
          (let lowerBackend = map tolower backendName in
           case backendValues macro lowerBackend of
             Some v \<Rightarrow> (v, [])
           | None \<Rightarrow>
               if defaultValue macro \<noteq> [] then (defaultValue macro, [])
               else if lazy macro then (macroName macro, [])
               else ([], [''Warning: No definition found for macro %'' @ n
                          @ '' for backend '' @ backendName @ [newline]]))
      | None \<Rightarrow> ([], [''Warning: Undefined macro %'' @ n @ '' found in shader'' @ [newline]]))"

lemma name_start_char: "name_start c \<Longrightarrow> name_char c"
  by (auto simp: name_start_def name_char_def)

lemma takeWhile_name:
  assumes "cs \<noteq> []" and "name_start (hd cs)"
  shows "takeWhile name_char cs \<noteq> []" and "hd (takeWhile name_char cs) = hd cs"
  using assms by (cases cs; simp add: name_start_char)+

lemma find_macro_Some:
  "find_macro t = Some (pre, n, suf) \<Longrightarrow>
     t = pre @ CHR ''%'' # n @ suf \<and> n \<noteq> [] \<and> name_start (hd n) \<and> list_all name_char n
     \<and> (suf = [] \<or> \<not> name_char (hd suf)) \<and> find_macro pre = None"
proof (induction t arbitrary: pre)
  case (Cons c cs)
  show ?case
  proof (cases "c = CHR ''%'' \<and> cs \<noteq> [] \<and> name_start (hd cs)")
    case True
    with Cons.prems show ?thesis
      by (auto simp: takeWhile_name list_all_iff dest: set_takeWhileD hd_dropWhile)
  next
    case False
    with Cons.prems obtain pre' where "find_macro cs = Some (pre', n, suf)" and "pre = c # pre'"
      by auto
    with Cons.IH [of pre'] False show ?thesis by (auto simp: takeWhile_name)
  qed
qed simp

lemmas find_macro_SomeD = find_macro_Some [THEN conjunct1]
  find_macro_Some [THEN conjunct2, THEN conjunct1]
  find_macro_Some [THEN conjunct2, THEN conjunct2, THEN conjunct1]
  find_macro_Some [THEN conjunct2, THEN conjunct2, THEN conjunct2, THEN conjunct1]

lemma find_macro_shorter: "find_macro t = Some (pre, n, suf) \<Longrightarrow> length suf < length t"
  by (auto dest: find_macro_SomeD(1))

lemma find_macro_None_iff:
  "find_macro t = None \<longleftrightarrow>
     (\<forall>i. Suc i < length t \<longrightarrow> t ! i = CHR ''%'' \<longrightarrow> \<not> name_start (t ! Suc i))"
proof (induction t)
  case (Cons c cs)
  have "(\<forall>i. Suc i < length (c # cs) \<longrightarrow> (c # cs) ! i = CHR ''%'' \<longrightarrow> \<not> name_start ((c # cs) ! Suc i))
      \<longleftrightarrow> (cs \<noteq> [] \<longrightarrow> c = CHR ''%'' \<longrightarrow> \<not> name_start (hd cs))
        \<and> (\<forall>i. Suc i < length cs \<longrightarrow> cs ! i = CHR ''%'' \<longrightarrow> \<not> name_start (cs ! Suc i))"
    (is "?L \<longleftrightarrow> ?R")
  proof
    assume l: ?L
    from l [rule_format, of 0] have "cs \<noteq> [] \<longrightarrow> c = CHR ''%'' \<longrightarrow> \<not> name_start (hd cs)"
      by (cases cs) simp_all
    moreover from l have "\<forall>i. Suc i < length cs \<longrightarrow> cs ! i = CHR ''%'' \<longrightarrow> \<not> name_start (cs ! Suc i)"
      by (auto dest: spec [of _ "Suc _"])
    ultimately show ?R by simp
  next
    assume r: ?R
    show ?L
    proof (intro allI impI)
      fix i
      assume "Suc i < length (c # cs)" and "(c # cs) ! i = CHR ''%''"
      with r show "\<not> name_start ((c # cs) ! Suc i)"
        by (cases i; cases cs) auto
    qed
  qed
  with Cons.IH show ?case by auto
qed simp

section \<open>Substitution\<close>

function substitute_loop ::
  "(string \<rightharpoonup> Macro) \<Rightarrow> string \<Rightarrow> string \<Rightarrow> string \<Rightarrow> string list \<Rightarrow> string \<times> string \<times> string list"
where
  "substitute_loop macs backendName t output warnings =
     (case find_macro t of
        Some (beforeMatch, n, suf) \<Rightarrow>
          (let (v, w) = expand macs backendName n in
           substitute_loop macs backendName suf (output @ beforeMatch @ v) (warnings @ w))
      | None \<Rightarrow> (output, t, warnings))"
  by pat_completeness auto
termination
  by (relation "measure (\<lambda>(macs, backendName, t, output, warnings). length t)")
    (auto dest: find_macro_shorter)

declare substitute_loop.simps [simp del]

definition substitute :: "(string \<rightharpoonup> Macro) \<Rightarrow> string \<Rightarrow> string \<Rightarrow> string \<times> string list" where
  "substitute macs backendName shaderCode =
     (let (output, remainder, warnings) = substitute_loop macs backendName shaderCode [] []
      in (output @ remainder, warnings))"

section \<open>The reference definition\<close>

function render :: "(string \<rightharpoonup> Macro) \<Rightarrow> string \<Rightarrow> string \<Rightarrow> string \<times> string list" where
  "render macs backendName t =
     (case find_macro t of
        None \<Rightarrow> (t, [])
      | Some (pre, n, suf) \<Rightarrow>
          (pre @ fst (expand macs backendName n) @ fst (render macs backendName suf),
           snd (expand macs backendName n) @ snd (render macs backendName suf)))"
  by pat_completeness auto
termination
  by (relation "measure (\<lambda>(macs, backendName, t). length t)") (auto dest: find_macro_shorter)

declare render.simps [simp del]

lemma render_plain: "find_macro t = None \<Longrightarrow> render macs b t = (t, [])"
  by (simp add: render.simps [of macs b t])

lemma render_match:
  "find_macro t = Some (pre, n, suf) \<Longrightarrow>
     render macs b t =
       (pre @ fst (expand macs b n) @ fst (render macs b suf),
        snd (expand macs b n) @ snd (render macs b suf))"
  by (simp add: render.simps [of macs b t])

lemma substitute_loop_render:
  "substitute_loop macs b t out ws = (out', remainder, ws') \<Longrightarrow>
     out' @ remainder = out @ fst (render macs b t)
     \<and> ws' = ws @ snd (render macs b t)"
proof (induction macs b t out ws rule: substitute_loop.induct)
  case (1 macs b t out ws)
  show ?case
  proof (cases "find_macro t")
    case None
    with "1.prems" show ?thesis
      by (auto simp: substitute_loop.simps [of macs b t] render_plain)
  next
    case (Some r)
    obtain pre n suf where r: "r = (pre, n, suf)" by (cases r)
    obtain v w where e: "expand macs b n = (v, w)" by (cases "expand macs b n")
    from "1.prems" Some r e
    have "substitute_loop macs b suf (out @ pre @ v) (ws @ w) = (out', remainder, ws')"
      by (simp add: substitute_loop.simps [of macs b t])
    with "1.IH" [of "(pre, n, suf)" pre "(n, suf)" n suf "(v, w)" v w] Some r e show ?thesis
      by (simp add: render_match)
  qed
qed

lemma substitute_eq_render: "substitute macs b t = render macs b t"
proof -
  obtain out remainder ws
    where "substitute_loop macs b t [] [] = (out, remainder, ws)"
    by (cases "substitute_loop macs b t [] []")
  with substitute_loop_render [OF this] show ?thesis
    by (cases "render macs b t") (simp add: substitute_def)
qed

lemma find_macro_append:
  assumes "find_macro pre = None"
    and "n \<noteq> []" and "name_start (hd n)" and "list_all name_char n"
    and "suf = [] \<or> \<not> name_char (hd suf)"
  shows "find_macro (pre @ CHR ''%'' # n @ suf) = Some (pre, n, suf)"
  using assms(1)
proof (induction pre)
  case Nil
  from assms(2-5) have "takeWhile name_char (n @ suf) = n" and "dropWhile name_char (n @ suf) = suf"
    by (cases suf; simp add: list_all_iff)+
  with assms(2,3) show ?case by simp
next
  case (Cons c pre)
  then show ?case by (cases pre) (auto simp: name_start_def isalpha_def split: if_splits)
qed

section \<open>Files\<close>

record World =
  files :: files
  unwritable :: "string set"
  stdout :: "string list"
  stderr :: "string list"

definition process_shader ::
  "string \<Rightarrow> string \<Rightarrow> (string \<rightharpoonup> Macro) \<Rightarrow> string \<Rightarrow> World \<Rightarrow> error option \<times> World"
where
  "process_shader inputShaderPath outputPath macs backendName w =
     (case files w inputShaderPath of
        None \<Rightarrow> (Some (RuntimeError (''Failed to open shader file: '' @ inputShaderPath)), w)
      | Some shaderCode \<Rightarrow>
          (let (output, warnings) = substitute macs backendName shaderCode;
               w1 = w\<lparr>stderr := stderr w @ warnings\<rparr>
           in if outputPath \<in> unwritable w1
              then (Some (RuntimeError (''Failed to write to output: '' @ outputPath)), w1)
              else (None, w1\<lparr>files := (files w1)(outputPath \<mapsto> output)\<rparr>)))"

lemma expand_cases:
  "macs n = None \<Longrightarrow>
     expand macs b n = ([], [''Warning: Undefined macro %'' @ n @ '' found in shader'' @ [newline]])"
  "macs n = Some m \<Longrightarrow> backendValues m (map tolower b) = Some v \<Longrightarrow> expand macs b n = (v, [])"
  "macs n = Some m \<Longrightarrow> backendValues m (map tolower b) = None \<Longrightarrow> defaultValue m \<noteq> [] \<Longrightarrow>
     expand macs b n = (defaultValue m, [])"
  "macs n = Some m \<Longrightarrow> backendValues m (map tolower b) = None \<Longrightarrow> defaultValue m = [] \<Longrightarrow>
     lazy m \<Longrightarrow> expand macs b n = (macroName m, [])"
  "macs n = Some m \<Longrightarrow> backendValues m (map tolower b) = None \<Longrightarrow> defaultValue m = [] \<Longrightarrow>
     \<not> lazy m \<Longrightarrow> expand macs b n =
       ([], [''Warning: No definition found for macro %'' @ n @ '' for backend '' @ b @ [newline]])"
  by (simp_all add: expand_def)

lemma process_shader_cases:
  "files w inp = None \<Longrightarrow>
     process_shader inp outp macs b w =
       (Some (RuntimeError (''Failed to open shader file: '' @ inp)), w)"
  "files w inp = Some shader \<Longrightarrow> outp \<in> unwritable w \<Longrightarrow>
     process_shader inp outp macs b w =
       (Some (RuntimeError (''Failed to write to output: '' @ outp)),
        w\<lparr>stderr := stderr w @ snd (render macs b shader)\<rparr>)"
  "files w inp = Some shader \<Longrightarrow> outp \<notin> unwritable w \<Longrightarrow>
     process_shader inp outp macs b w =
       (None, w\<lparr>stderr := stderr w @ snd (render macs b shader),
                 files := (files w)(outp \<mapsto> fst (render macs b shader))\<rparr>)"
  by (simp_all add: process_shader_def substitute_eq_render split_beta)

lemmas shader_eval =
  substitute_eq_render render.simps expand_def name_start_def name_char_def char_class_defs
  tolower_def

lemma render_sample:
  "render [''FOO'' \<mapsto> \<lparr>macroName = ''FOO'', lazy = True, backendValues = [''glsl'' \<mapsto> ''a''],
       defaultValue = []\<rparr>] ''glsl'' ''x %FOO; %BAR'' =
     (''x a; '', [''Warning: Undefined macro %BAR found in shader'' @ [newline]])"
  by (simp add: shader_eval)

lemma render_plain_sample: "find_macro ''50% off, 100 %'' = None"
  by (simp add: shader_eval)

lemma find_macro_sample: "find_macro ''a%X b'' = Some (''a'', ''X'', '' b'')"
  by (simp add: shader_eval)

section \<open>What the shader processor guarantees\<close>

text \<open>
  C4. The substitution loop, which carries the output and the warnings in two
  accumulators and copies the rest of the text after the loop, computes the reference
  definition \<open>render\<close>: the text before the first reference, its replacement, and the
  rendering of the text after it.
\<close>

theorem substitute_refines_render:
  "substitute macs b t = render macs b t
   \<and> (\<forall>out r ws. substitute_loop macs b t [] [] = (out, r, ws) \<longrightarrow>
         out @ r = fst (render macs b t) \<and> find_macro r = None)"
proof -
  have "find_macro r = None" if "substitute_loop macs b t out0 ws0 = (out, r, ws)"
    for out0 ws0 out r ws
    using that
  proof (induction macs b t out0 ws0 rule: substitute_loop.induct)
    case (1 macs b t out0 ws0)
    show ?case
    proof (cases "find_macro t")
      case None
      with "1.prems" show ?thesis by (auto simp: substitute_loop.simps [of macs b t])
    next
      case (Some x)
      obtain pre n suf where x: "x = (pre, n, suf)" by (cases x)
      obtain v w where e: "expand macs b n = (v, w)" by (cases "expand macs b n")
      with "1.prems" Some x "1.IH" [of "(pre, n, suf)" pre "(n, suf)" n suf "(v, w)" v w]
      show ?thesis by (simp add: substitute_loop.simps [of macs b t])
    qed
  qed
  then show ?thesis by (auto simp: substitute_eq_render dest: substitute_loop_render)
qed

theorem substitute_refines_render_witness:
  "substitute [''FOO'' \<mapsto> \<lparr>macroName = ''FOO'', lazy = True, backendValues = [''glsl'' \<mapsto> ''a''],
       defaultValue = []\<rparr>] ''glsl'' ''x %FOO; %BAR'' =
     (''x a; '', [''Warning: Undefined macro %BAR found in shader'' @ [newline]])"
  using substitute_refines_render [of "[''FOO'' \<mapsto> \<lparr>macroName = ''FOO'', lazy = True,
      backendValues = [''glsl'' \<mapsto> ''a''], defaultValue = []\<rparr>]" "''glsl''" "''x %FOO; %BAR''"]
  by (simp add: render_sample)

text \<open>
  C10. \<open>find_macro\<close> finds the leftmost longest reference and nothing else: it returns
  \<open>(pre, n, suf)\<close> exactly when the text is \<open>pre\<close>, a \<^verbatim>\<open>%\<close>, \<open>n\<close> and \<open>suf\<close>, the name \<open>n\<close> starts
  with a letter or an underscore and consists of letters, digits and underscores, no
  character of a name follows it, and \<open>pre\<close> holds no reference.
\<close>

theorem find_macro_leftmost_longest:
  "find_macro t = Some (pre, n, suf) \<longleftrightarrow>
     t = pre @ CHR ''%'' # n @ suf \<and> n \<noteq> [] \<and> name_start (hd n) \<and> list_all name_char n
     \<and> (suf = [] \<or> \<not> name_char (hd suf)) \<and> find_macro pre = None"
  by (auto dest: find_macro_Some intro: find_macro_append)

theorem find_macro_leftmost_longest_witness:
  "find_macro ''%1 %ab%c'' = Some (''%1 '', ''ab'', ''%c'')"
  using find_macro_leftmost_longest [of "''%1 %ab%c''" "''%1 ''" "''ab''" "''%c''"]
  by (simp add: name_start_def name_char_def char_class_defs)

text \<open>
  C33. A text without a reference (no \<^verbatim>\<open>%\<close> that a letter or an underscore follows) is
  copied unchanged, and no warning is printed.
\<close>

theorem substitute_plain_text:
  assumes "\<forall>i. Suc i < length t \<longrightarrow> t ! i = CHR ''%'' \<longrightarrow> \<not> name_start (t ! Suc i)"
  shows "substitute macs b t = (t, [])"
  using assms by (simp add: substitute_eq_render render_plain find_macro_None_iff)

theorem substitute_plain_text_witness:
  "substitute Map.empty ''glsl'' ''50% off, 100 %'' = (''50% off, 100 %'', [])"
proof -
  from render_plain_sample
  have "\<forall>i. Suc i < length ''50% off, 100 %'' \<longrightarrow> ''50% off, 100 %'' ! i = CHR ''%''
      \<longrightarrow> \<not> name_start (''50% off, 100 %'' ! Suc i)"
    unfolding find_macro_None_iff .
  then show ?thesis by (rule substitute_plain_text)
qed

text \<open>
  C22. A reference to a name that is not in the macro table is removed from the output:
  the text before it is followed directly by the rendering of the text after it, and a
  warning is printed. The \<^verbatim>\<open>%\<close> and the name are not copied.
\<close>

theorem substitute_drops_unknown:
  assumes "find_macro t = Some (pre, n, suf)" and "macs n = None"
  shows "substitute macs b t =
     (pre @ fst (substitute macs b suf),
      (''Warning: Undefined macro %'' @ n @ '' found in shader'' @ [newline])
        # snd (substitute macs b suf))"
  using assms by (simp add: substitute_eq_render render_match expand_cases)

theorem substitute_drops_unknown_witness:
  "substitute Map.empty ''glsl'' ''a%X b'' =
     (''a b'', [''Warning: Undefined macro %X found in shader'' @ [newline]])"
  using substitute_drops_unknown [OF find_macro_sample, of Map.empty b]
  by (simp add: shader_eval)

text \<open>
  C20. What a setter stores is what the substitution inserts: after \<^verbatim>\<open>X.set_b("v")\<close> on a
  declared variable, a reference to the macro of \<^verbatim>\<open>X\<close> expands to \<^verbatim>\<open>v\<close> for every backend
  name that equals \<^verbatim>\<open>b\<close> up to the case of its letters, without a warning.
\<close>

theorem set_then_expand:
  assumes "varToMacroName st var = Some n" and "macros st n = Some m"
    and "execute fs (SetStatement var b [v] [True] False) st = Inr st'"
    and "map tolower b' = map tolower b"
  shows "expand (macros st') b' n = (v, [])"
  using assms by (auto simp: expand_def to_lower_def)

theorem set_then_expand_witness:
  "\<exists>st'. execute Map.empty (SetStatement ''X'' ''HLSL'' [''v''] [True] False) macro_state = Inr st'
     \<and> expand (macros st') ''hlsl'' ''FOO'' = (''v'', [])"
proof -
  obtain st' where run: "execute fs (SetStatement ''X'' ''HLSL'' [''v''] [True] False) macro_state = Inr st'"
    by (simp add: macro_state_def)
  from set_then_expand [OF _ _ run, of "''FOO''" _ "''hlsl''"] run show ?thesis
    by (auto simp: macro_state_def tolower_def run_simps)
qed

text \<open>
  C34. \<open>process_shader\<close> changes one file at most, the output file, and only when it
  succeeds; it never changes what was written to \<^verbatim>\<open>std::cout\<close>, and when it fails it has
  thrown a \<^verbatim>\<open>std::runtime_error\<close>.
\<close>

theorem process_shader_frame:
  assumes "process_shader inp outp macs b w = (r, w')"
  shows "unwritable w' = unwritable w \<and> stdout w' = stdout w
     \<and> (\<forall>path. path \<noteq> outp \<longrightarrow> files w' path = files w path)
     \<and> (r \<noteq> None \<longrightarrow> files w' = files w \<and> (\<exists>msg. r = Some (RuntimeError msg)))"
  using assms by (auto simp: process_shader_def split_beta Let_def split: option.splits if_splits)

theorem process_shader_frame_witness:
  "process_shader ''in'' ''out'' Map.empty ''glsl''
      \<lparr>files = [''in'' \<mapsto> ''x''], unwritable = {}, stdout = [], stderr = []\<rparr> =
     (None, \<lparr>files = [''in'' \<mapsto> ''x'', ''out'' \<mapsto> ''x''], unwritable = {}, stdout = [], stderr = []\<rparr>)"
proof -
  have run: "process_shader ''in'' ''out'' Map.empty ''glsl''
      \<lparr>files = [''in'' \<mapsto> ''x''], unwritable = {}, stdout = [], stderr = []\<rparr> =
     (None, \<lparr>files = [''in'' \<mapsto> ''x'', ''out'' \<mapsto> ''x''], unwritable = {}, stdout = [], stderr = []\<rparr>)"
    by (simp add: process_shader_cases shader_eval)
  from process_shader_frame [OF run] run show ?thesis by simp
qed

end
