(* ===== verification/Slayout_Main.thy ===== *)
theory Slayout_Main
  imports Slayout_Shader_Processor "HOL-Library.List_Lexorder" "HOL-Library.Char_ord"
begin

text \<open>
  The command line of \<^verbatim>\<open>src/src/main.cpp\<close>. \<open>compile\<close> is the first half of \<^verbatim>\<open>main\<close>: the
  tokenizer, the parser and the interpreter in sequence, each constructed on the result of
  the one before. \<open>generate_loop\<close> is the \<^verbatim>\<open>for\<close> loop over the requested backends and
  \<open>slayoutc\<close> the whole of \<^verbatim>\<open>main\<close> on the argument vector (with the name of the program
  as its first element) and a \<open>World\<close>; it returns the exit code, or the exception that
  leaves \<^verbatim>\<open>main\<close>, beside the world after the run. The \<^verbatim>\<open>std::set\<close> of backends is iterated
  in the order of \<^verbatim>\<open>std::string\<close>, which is the lexicographic order of the bytes:
  \<open>sorted_list_of_set\<close> over the order of \<open>List_Lexorder\<close> and \<open>Char_ord\<close>. A layout file
  that cannot be opened reads as the empty text, as the unchecked \<^verbatim>\<open>std::ifstream\<close> of
  \<^verbatim>\<open>main\<close> does.
\<close>

section \<open>The order of the backends\<close>

lemma backend_order: "sorted [''glsl'', ''hlsl'', ''msl'', ''spirv'']" "distinct [''glsl'', ''hlsl'', ''msl'', ''spirv'']"
  by simp_all

lemma sorted_backends:
  assumes "req \<subseteq> backend_names"
  shows "sorted_list_of_set req = filter (\<lambda>b. b \<in> req) [''glsl'', ''hlsl'', ''msl'', ''spirv'']"
proof -
  let ?xs = "filter (\<lambda>b. b \<in> req) [''glsl'', ''hlsl'', ''msl'', ''spirv'']"
  from assms have "set ?xs = req" by (auto simp: backend_names_def)
  moreover have "sorted ?xs" and "distinct ?xs"
    using backend_order sorted_filter [of id "[''glsl'', ''hlsl'', ''msl'', ''spirv'']" "\<lambda>b. b \<in> req"]
    by (simp_all del: sorted_wrt.simps filter.simps)
  ultimately show ?thesis
    using sorted_list_of_set.idem_if_sorted_distinct [of ?xs] by simp
qed

section \<open>The pipeline\<close>

definition usage :: string where
  "usage = ''Usage: slayoutc <layout.slayout> <input.shader> <output_dir>'' @ [newline]"

definition compile :: "files \<Rightarrow> string \<Rightarrow> Interpreter result" where
  "compile fs src =
     rbind (tokenize (Tokenizer_new src)) (\<lambda>(toks, t).
     rbind (parse (Parser_new toks)) (\<lambda>(statements, p).
       interpret_statements fs statements Interpreter_new))"

definition output_path :: "string \<Rightarrow> string \<Rightarrow> string" where
  "output_path outputDir b = outputDir @ ''/shader.'' @ b"

fun generate_loop ::
  "string \<Rightarrow> string \<Rightarrow> (string \<rightharpoonup> Macro) \<Rightarrow> string list \<Rightarrow> World \<Rightarrow> error option \<times> World"
where
  "generate_loop shaderFile outputDir macs [] w = (None, w)"
| "generate_loop shaderFile outputDir macs (b # bs) w =
     (let outputPath = output_path outputDir b in
      case process_shader shaderFile outputPath macs b w of
        (Some e, w1) \<Rightarrow> (Some e, w1)
      | (None, w1) \<Rightarrow>
          generate_loop shaderFile outputDir macs bs
            (w1\<lparr>stdout := stdout w1 @ [''Generated: '' @ outputPath @ [newline]]\<rparr>))"

definition slayoutc :: "string list \<Rightarrow> World \<Rightarrow> (error + int) \<times> World" where
  "slayoutc argv w =
     (if length argv < 4 then (Inr 1, w\<lparr>stderr := stderr w @ [usage]\<rparr>)
      else
        (let slayoutFile = argv ! 1; shaderFile = argv ! 2; outputDir = argv ! 3;
             src = (case files w slayoutFile of Some s \<Rightarrow> s | None \<Rightarrow> [])
         in case compile (files w) src of
              Inl e \<Rightarrow> (Inl e, w)
            | Inr st \<Rightarrow>
                (case generate_loop shaderFile outputDir (get_macros st)
                        (sorted_list_of_set (get_required_backends st))
                        (w\<lparr>stdout := stdout w @ cout st, stderr := stderr w @ cerr st\<rparr>) of
                   (Some e, w') \<Rightarrow> (Inl e, w')
                 | (None, w') \<Rightarrow> (Inr 0, w'))))"

lemma tokenize_eof_terminated: "tokenize t = Inr (toks, t') \<Longrightarrow> eof_terminated toks"
  by (erule tokenize_InrD) (simp add: eof_terminated_def)

lemma compile_InrD:
  assumes "compile fs src = Inr st"
  obtains toks t stmts p where "tokenize (Tokenizer_new src) = Inr (toks, t)"
    and "parse (Parser_new toks) = Inr (stmts, p)"
    and "interpret_statements fs stmts Interpreter_new = Inr st"
  using assms by (auto simp: compile_def rbind_eq_Inr_iff)

lemma compile_InlD:
  assumes "compile fs src = Inl e"
  shows "e = OutOfRange \<or> (\<exists>msg. e = RuntimeError msg)"
proof -
  consider (lex) "tokenize (Tokenizer_new src) = Inl e"
    | (syn) toks t where "tokenize (Tokenizer_new src) = Inr (toks, t)"
        and "parse (Parser_new toks) = Inl e"
    | (sem) toks t stmts p where "tokenize (Tokenizer_new src) = Inr (toks, t)"
        and "parse (Parser_new toks) = Inr (stmts, p)"
        and "interpret_statements fs stmts Interpreter_new = Inl e"
    using assms by (auto simp: compile_def rbind_eq_Inl_iff)
  then show ?thesis
  proof cases
    case lex
    from tokenize_loop_InlD [OF tokenize_InlD [OF this]] show ?thesis by auto
  next
    case syn
    from parse_safe [OF parser_inv_new [OF tokenize_eof_terminated [OF syn(1)]]] syn(2)
    show ?thesis by (simp add: safe_def)
  next
    case sem
    from sem(2) have "list_all wf_statement stmts"
      using parse_loop_InrD [of "Parser_new toks" "[]" stmts p] by (simp add: parse_def)
    with sem(3) show ?thesis
      by (auto simp: interpret_statements_def dest: execute_Inl_all(2) [OF interp_inv_new])
  qed
qed

lemma compile_inv: "compile fs src = Inr st \<Longrightarrow> interp_inv st"
  by (erule compile_InrD)
    (auto simp: interpret_statements_def dest: execute_inv_all(2) [OF interp_inv_new])

lemma compile_empty [simp]: "compile fs [] = Inr Interpreter_new"
  by (simp add: compile_def tokenizer_eval parser_eval interpret_statements_def)

section \<open>The generated files\<close>

lemma output_path_inject [simp]: "output_path d b = output_path d b' \<longleftrightarrow> b = b'"
  by (simp add: output_path_def)

lemma generate_loop_Cons:
  "generate_loop sh d macs (b # bs) w =
     (case process_shader sh (output_path d b) macs b w of
        (Some e, w1) \<Rightarrow> (Some e, w1)
      | (None, w1) \<Rightarrow>
          generate_loop sh d macs bs
            (w1\<lparr>stdout := stdout w1 @ [''Generated: '' @ output_path d b @ [newline]]\<rparr>))"
  by (simp add: Let_def)

declare generate_loop.simps(2) [simp del]

lemma generate_loop_frame:
  assumes "generate_loop sh d macs bs w = (r, w')"
  shows "unwritable w' = unwritable w
     \<and> (\<forall>path. path \<notin> output_path d ` set bs \<longrightarrow> files w' path = files w path)
     \<and> (\<forall>e. r = Some e \<longrightarrow> (\<exists>msg. e = RuntimeError msg))"
  using assms
proof (induction bs arbitrary: w)
  case (Cons b bs)
  obtain r1 w1 where one: "process_shader sh (output_path d b) macs b w = (r1, w1)"
    by (cases "process_shader sh (output_path d b) macs b w")
  note frame1 = process_shader_frame [OF one]
  show ?case
  proof (cases r1)
    case None
    with Cons.prems one have "generate_loop sh d macs bs
        (w1\<lparr>stdout := stdout w1 @ [''Generated: '' @ output_path d b @ [newline]]\<rparr>) = (r, w')"
      by (simp add: generate_loop_Cons)
    from Cons.IH [OF this] frame1 show ?thesis by auto
  next
    case (Some e)
    with Cons.prems one frame1 show ?thesis by (auto simp: generate_loop_Cons)
  qed
qed simp

lemma generate_loop_success:
  assumes "files w sh = Some shader" and "sh \<notin> output_path d ` set bs"
    and "output_path d ` set bs \<inter> unwritable w = {}" and "distinct bs"
  shows "\<exists>w'. generate_loop sh d macs bs w = (None, w')
     \<and> (\<forall>b \<in> set bs. files w' (output_path d b) = Some (fst (render macs b shader)))
     \<and> stdout w' = stdout w @ map (\<lambda>b. ''Generated: '' @ output_path d b @ [newline]) bs
     \<and> stderr w' = stderr w @ concat (map (\<lambda>b. snd (render macs b shader)) bs)"
  using assms
proof (induction bs arbitrary: w)
  case (Cons b bs)
  let ?w1 = "w\<lparr>stderr := stderr w @ snd (render macs b shader),
      files := (files w)(output_path d b \<mapsto> fst (render macs b shader))\<rparr>"
  let ?w2 = "?w1\<lparr>stdout := stdout ?w1 @ [''Generated: '' @ output_path d b @ [newline]]\<rparr>"
  from Cons.prems have one: "process_shader sh (output_path d b) macs b w = (None, ?w1)"
    by (intro process_shader_cases(3)) auto
  from Cons.prems have "files ?w2 sh = Some shader" and "sh \<notin> output_path d ` set bs"
    and "output_path d ` set bs \<inter> unwritable ?w2 = {}" and "distinct bs"
    by auto
  from Cons.IH [OF this] obtain w' where rest: "generate_loop sh d macs bs ?w2 = (None, w')"
    and outs: "\<forall>b \<in> set bs. files w' (output_path d b) = Some (fst (render macs b shader))"
    and out: "stdout w' = stdout ?w2 @ map (\<lambda>b. ''Generated: '' @ output_path d b @ [newline]) bs"
    and err: "stderr w' = stderr ?w2 @ concat (map (\<lambda>b. snd (render macs b shader)) bs)"
    by blast
  from Cons.prems have "output_path d b \<notin> output_path d ` set bs" by auto
  with generate_loop_frame [OF rest] have "files w' (output_path d b) = files ?w2 (output_path d b)"
    by blast
  with one rest outs out err show ?case by (simp add: generate_loop_Cons)
qed simp

section \<open>The runs of the program\<close>

lemma compile_sample:
  "compile fs ''SYSTEM->generate_all();'' =
     Inr (Interpreter_new\<lparr>requiredBackends := {''glsl'', ''hlsl'', ''msl'', ''spirv''}\<rparr>)"
  by (simp add: compile_def tokenizer_eval parser_eval interpreter_eval)

lemma slayoutc_few: "length argv < 4 \<Longrightarrow> slayoutc argv w = (Inr 1, w\<lparr>stderr := stderr w @ [usage]\<rparr>)"
  by (simp add: slayoutc_def)

definition layout_source :: "string list \<Rightarrow> World \<Rightarrow> string" where
  "layout_source argv w = (case files w (argv ! 1) of Some s \<Rightarrow> s | None \<Rightarrow> [])"

definition started :: "Interpreter \<Rightarrow> World \<Rightarrow> World" where
  "started st w = w\<lparr>stdout := stdout w @ cout st, stderr := stderr w @ cerr st\<rparr>"

lemma slayoutc_compile_error:
  "4 \<le> length argv \<Longrightarrow> compile (files w) (layout_source argv w) = Inl e \<Longrightarrow>
     slayoutc argv w = (Inl e, w)"
  by (simp add: slayoutc_def layout_source_def)

lemma slayoutc_compiled:
  assumes "4 \<le> length argv" and "compile (files w) (layout_source argv w) = Inr st"
    and "generate_loop (argv ! 2) (argv ! 3) (macros st)
           (sorted_list_of_set (requiredBackends st)) (started st w) = (r, w')"
  shows "slayoutc argv w = (case r of Some e \<Rightarrow> Inl e | None \<Rightarrow> Inr 0, w')"
  using assms
  by (simp add: slayoutc_def layout_source_def started_def get_macros_def
      get_required_backends_def split: option.splits)

lemma slayoutc_cases [case_names usage failed compiled]:
  assumes "length argv < 4 \<Longrightarrow> P"
    and "\<And>e. 4 \<le> length argv \<Longrightarrow> compile (files w) (layout_source argv w) = Inl e \<Longrightarrow> P"
    and "\<And>st r w'. 4 \<le> length argv \<Longrightarrow> compile (files w) (layout_source argv w) = Inr st \<Longrightarrow>
       generate_loop (argv ! 2) (argv ! 3) (macros st)
         (sorted_list_of_set (requiredBackends st)) (started st w) = (r, w') \<Longrightarrow> P"
  shows P
proof (cases "length argv < 4")
  case False
  show ?thesis
  proof (cases "compile (files w) (layout_source argv w)")
    case (Inr st)
    with False assms(3) [of st] show ?thesis
      by (cases "generate_loop (argv ! 2) (argv ! 3) (macros st)
         (sorted_list_of_set (requiredBackends st)) (started st w)") auto
  qed (use False assms(2) in auto)
qed (rule assms(1))

lemma backends_listed:
  "interp_inv st \<Longrightarrow> set (sorted_list_of_set (requiredBackends st)) = requiredBackends st"
  by (simp add: sorted_backends interp_invD(3)) (auto simp: backend_names_def dest!: interp_invD(3))

section \<open>What a run guarantees\<close>

text \<open>
  C1. No run of the program has undefined behaviour: an exception that leaves \<^verbatim>\<open>main\<close>
  is a \<^verbatim>\<open>std::runtime_error\<close> of one of the four components, or the \<^verbatim>\<open>std::out_of_range\<close>
  that the interpreter throws for an undeclared variable. In particular the parser
  stays inside the token vector of the tokenizer, and the interpreter inside the vectors
  of the statements of the parser.
\<close>

theorem slayoutc_errors:
  assumes "slayoutc argv w = (Inl e, w')"
  shows "e = OutOfRange \<or> (\<exists>msg. e = RuntimeError msg)"
proof (cases rule: slayoutc_cases [where argv = argv and w = w])
  case usage
  with assms show ?thesis by (simp add: slayoutc_few)
next
  case (failed e')
  with assms show ?thesis by (auto simp: slayoutc_compile_error dest: compile_InlD)
next
  case (compiled st r w'')
  with assms generate_loop_frame [OF compiled(3)] show ?thesis
    by (auto simp: slayoutc_compiled [OF compiled] split: option.splits)
qed

theorem slayoutc_errors_witness:
  "slayoutc [''slayoutc'', ''l'', ''s'', ''o'']
      \<lparr>files = [''l'' \<mapsto> ''9''], unwritable = {}, stdout = [], stderr = []\<rparr> =
     (Inl (RuntimeError ''Unexpected character: 9''),
      \<lparr>files = [''l'' \<mapsto> ''9''], unwritable = {}, stdout = [], stderr = []\<rparr>)"
proof -
  have run: "slayoutc [''slayoutc'', ''l'', ''s'', ''o'']
      \<lparr>files = [''l'' \<mapsto> ''9''], unwritable = {}, stdout = [], stderr = []\<rparr> =
     (Inl (RuntimeError ''Unexpected character: 9''),
      \<lparr>files = [''l'' \<mapsto> ''9''], unwritable = {}, stdout = [], stderr = []\<rparr>)"
    by (simp add: slayoutc_def compile_def tokenizer_eval)
  from slayoutc_errors [OF run] run show ?thesis by simp
qed

text \<open>
  C12. A run writes nothing but its outputs: whatever the arguments and whether it
  succeeds or fails, every file other than \<^verbatim>\<open>shader.glsl\<close>, \<^verbatim>\<open>shader.hlsl\<close>, \<^verbatim>\<open>shader.msl\<close> and
  \<^verbatim>\<open>shader.spirv\<close> in the output directory is as it was.
\<close>

theorem slayoutc_writes_only_outputs:
  assumes "slayoutc argv w = (r, w')"
  shows "unwritable w' = unwritable w
     \<and> (\<forall>path. path \<notin> output_path (argv ! 3) ` backend_names \<longrightarrow> files w' path = files w path)"
proof (cases rule: slayoutc_cases [where argv = argv and w = w])
  case usage
  with assms show ?thesis by (auto simp: slayoutc_few)
next
  case (failed e')
  with assms show ?thesis by (auto simp: slayoutc_compile_error)
next
  case (compiled st r' w'')
  from compiled(2) have "set (sorted_list_of_set (requiredBackends st)) \<subseteq> backend_names"
    using backends_listed [OF compile_inv] interp_invD(3) [OF compile_inv] by simp
  then have "output_path (argv ! 3) ` set (sorted_list_of_set (requiredBackends st))
      \<subseteq> output_path (argv ! 3) ` backend_names"
    by (rule image_mono)
  with generate_loop_frame [OF compiled(3)] have "unwritable w'' = unwritable w
     \<and> (\<forall>path. path \<notin> output_path (argv ! 3) ` backend_names \<longrightarrow> files w'' path = files w path)"
    by (simp add: started_def) blast
  with assms show ?thesis by (simp add: slayoutc_compiled [OF compiled])
qed

theorem slayoutc_writes_only_outputs_witness:
  "files (snd (slayoutc [''slayoutc'', ''l'', ''s'', ''o'']
      \<lparr>files = [''l'' \<mapsto> ''9''], unwritable = {}, stdout = [], stderr = []\<rparr>)) ''l'' = Some ''9''"
  using slayoutc_writes_only_outputs [of "[''slayoutc'', ''l'', ''s'', ''o'']"
      "\<lparr>files = [''l'' \<mapsto> ''9''], unwritable = {}, stdout = [], stderr = []\<rparr>"
      "fst (slayoutc [''slayoutc'', ''l'', ''s'', ''o'']
        \<lparr>files = [''l'' \<mapsto> ''9''], unwritable = {}, stdout = [], stderr = []\<rparr>)"
      "snd (slayoutc [''slayoutc'', ''l'', ''s'', ''o'']
        \<lparr>files = [''l'' \<mapsto> ''9''], unwritable = {}, stdout = [], stderr = []\<rparr>)"]
  by (auto simp: output_path_def backend_names_def)

text \<open>
  C24. A layout file that cannot be opened is not an error: \<^verbatim>\<open>main\<close> does not check the
  stream, reads the empty text from it, and the run ends with exit code 0 without having
  written or printed anything.
\<close>

theorem slayoutc_missing_layout:
  assumes "4 \<le> length argv" and "files w (argv ! 1) = None"
  shows "slayoutc argv w = (Inr 0, w)"
proof -
  from assms(2) have "compile (files w) (layout_source argv w) = Inr Interpreter_new"
    by (simp add: layout_source_def)
  moreover have "generate_loop (argv ! 2) (argv ! 3) (macros Interpreter_new)
      (sorted_list_of_set (requiredBackends Interpreter_new)) (started Interpreter_new w) = (None, w)"
    by (simp add: Interpreter_new_def started_def)
  ultimately show ?thesis using slayoutc_compiled [OF assms(1)] by fastforce
qed

theorem slayoutc_missing_layout_witness:
  "slayoutc [''slayoutc'', ''l'', ''s'', ''o'']
      \<lparr>files = Map.empty, unwritable = {}, stdout = [], stderr = []\<rparr> =
     (Inr 0, \<lparr>files = Map.empty, unwritable = {}, stdout = [], stderr = []\<rparr>)"
  using slayoutc_missing_layout [of "[''slayoutc'', ''l'', ''s'', ''o'']"
      "\<lparr>files = Map.empty, unwritable = {}, stdout = [], stderr = []\<rparr>"]
  by simp

text \<open>
  C2. A run whose layout compiles, whose shader can be read and whose outputs can be
  written ends with exit code 0, and for every requested backend the output file holds
  the rendering of the shader with the macro table of the layout for that backend. The
  files are generated, and reported on \<^verbatim>\<open>std::cout\<close>, in the order \<^verbatim>\<open>glsl\<close>, \<^verbatim>\<open>hlsl\<close>, \<^verbatim>\<open>msl\<close>,
  \<^verbatim>\<open>spirv\<close>.
\<close>

theorem slayoutc_generates:
  assumes "4 \<le> length argv" and "compile (files w) (layout_source argv w) = Inr st"
    and "files w (argv ! 2) = Some shader"
    and "argv ! 2 \<notin> output_path (argv ! 3) ` requiredBackends st"
    and "output_path (argv ! 3) ` requiredBackends st \<inter> unwritable w = {}"
  shows "\<exists>w'. slayoutc argv w = (Inr 0, w')
     \<and> (\<forall>b \<in> requiredBackends st.
           files w' (output_path (argv ! 3) b) = Some (fst (render (macros st) b shader)))
     \<and> stdout w' = stdout w @ cout st
           @ map (\<lambda>b. ''Generated: '' @ output_path (argv ! 3) b @ [newline])
               (filter (\<lambda>b. b \<in> requiredBackends st) [''glsl'', ''hlsl'', ''msl'', ''spirv''])"
proof -
  let ?bs = "sorted_list_of_set (requiredBackends st)"
  from assms(2) have inv: "interp_inv st" by (rule compile_inv)
  then have bs: "set ?bs = requiredBackends st"
    and order: "?bs = filter (\<lambda>b. b \<in> requiredBackends st) [''glsl'', ''hlsl'', ''msl'', ''spirv'']"
    by (rule backends_listed, intro sorted_backends interp_invD(3))
  from assms(3-5) bs have "files (started st w) (argv ! 2) = Some shader"
    and "argv ! 2 \<notin> output_path (argv ! 3) ` set ?bs"
    and "output_path (argv ! 3) ` set ?bs \<inter> unwritable (started st w) = {}"
    and "distinct ?bs"
    by (simp_all add: started_def)
  from generate_loop_success [OF this, of "macros st"] obtain w'
    where "generate_loop (argv ! 2) (argv ! 3) (macros st) ?bs (started st w) = (None, w')"
      and "\<forall>b \<in> set ?bs. files w' (output_path (argv ! 3) b) = Some (fst (render (macros st) b shader))"
      and "stdout w' = stdout (started st w)
             @ map (\<lambda>b. ''Generated: '' @ output_path (argv ! 3) b @ [newline]) ?bs"
    by blast
  with slayoutc_compiled [OF assms(1,2) this(1)] bs order show ?thesis
    by (simp add: started_def)
qed

theorem slayoutc_generates_witness:
  "\<exists>w'. slayoutc [''slayoutc'', ''l'', ''s'', ''o'']
        \<lparr>files = [''l'' \<mapsto> ''SYSTEM->generate_all();'', ''s'' \<mapsto> ''x''], unwritable = {},
           stdout = [], stderr = []\<rparr> = (Inr 0, w')
     \<and> files w' ''o/shader.glsl'' = Some ''x'' \<and> files w' ''o/shader.spirv'' = Some ''x''
     \<and> stdout w' = [''Generated: o/shader.glsl'' @ [newline], ''Generated: o/shader.hlsl'' @ [newline],
          ''Generated: o/shader.msl'' @ [newline], ''Generated: o/shader.spirv'' @ [newline]]"
  using slayoutc_generates [of "[''slayoutc'', ''l'', ''s'', ''o'']"
      "\<lparr>files = [''l'' \<mapsto> ''SYSTEM->generate_all();'', ''s'' \<mapsto> ''x''], unwritable = {},
         stdout = [], stderr = []\<rparr>"
      "Interpreter_new\<lparr>requiredBackends := {''glsl'', ''hlsl'', ''msl'', ''spirv''}\<rparr>" "''x''"]
  by (auto simp: layout_source_def compile_sample output_path_def Interpreter_new_def shader_eval)

end
