(* ===== verification/Spec2Isabelle.thy ===== *)
theory Spec2Isabelle
  imports Slayout_Prelude Slayout_Tokenizer Slayout_Parser Slayout_Parser_Safety
    Slayout_Interpreter Slayout_Shader_Processor Slayout_Main
begin

text \<open>
  \<^bold>\<open>slayout\<close> is a compiler for a small layout language that configures the preprocessing
  of shader sources. A layout script declares macros, gives them one value per backend
  (GLSL, HLSL, MSL, SPIRV), a default and a laziness flag, declares boolean switches, and
  says which backends to generate. The program \<^verbatim>\<open>slayoutc\<close> reads the script, builds a macro
  table and a set of backends, and rewrites a shader template once per backend, replacing
  each \<^verbatim>\<open>%NAME\<close> by the value of the macro \<^verbatim>\<open>NAME\<close>.

  \<^bold>\<open>The parts of the program\<close>, in the order in which \<^verbatim>\<open>main\<close> runs them:
  \<^item> the tokenizer (\<^verbatim>\<open>src/include/tokenizer.h\<close>, \<^verbatim>\<open>src/src/tokenizer.cpp\<close>): script text to a
    list of tokens that ends with an \<^verbatim>\<open>EndOfFile\<close> token;
  \<^item> the parser (\<^verbatim>\<open>src/include/parser.h\<close>, \<^verbatim>\<open>src/src/parser.cpp\<close>): tokens to a list of
    statements, by recursive descent with one token of lookahead;
  \<^item> the interpreter (\<^verbatim>\<open>src/include/interpreter.h\<close>, \<^verbatim>\<open>src/src/interpreter.cpp\<close>): statements
    to the macro table and the set of requested backends;
  \<^item> the shader processor (\<^verbatim>\<open>src/include/shader_processor.h\<close>,
    \<^verbatim>\<open>src/src/shader_processor.cpp\<close>): the substitution of \<^verbatim>\<open>%NAME\<close> in a template and the
    writing of one output file;
  \<^item> the command line (\<^verbatim>\<open>src/src/main.cpp\<close>), which runs the first three in sequence and
    then the shader processor once per requested backend.

  Each part is constructed on the value the one before returned and shares no state
  with it. The model follows this: an object is a record, a method takes the record and
  returns its result beside the record after the call, and an exception is the value
  \<open>Inl e\<close> of the result type, which ends the sequence of calls (\<open>rbind\<close>).

  \<^bold>\<open>The theories.\<close>
  \<^item> \<open>Slayout_Prelude\<close>: the error values that stand for the C++ exceptions
    (\<open>RuntimeError msg\<close> for \<^verbatim>\<open>std::runtime_error\<close> with its message, \<open>OutOfRange\<close> for
    \<^verbatim>\<open>std::map::at\<close>, \<open>UndefinedBehaviour\<close> for a vector read past the end), the result
    type \<open>error + 'a\<close> with its sequencing \<open>rbind\<close>, the postcondition \<open>returns\<close> of a call
    that may throw, \<open>map_at\<close> for \<^verbatim>\<open>std::map::at\<close>, the character classes of the C locale,
    \<^verbatim>\<open>std::to_string\<close>, and the lemma collections \<open>frame\<close>, \<open>progress\<close> and \<open>run_simps\<close>.
  \<^item> \<open>Slayout_Tokenizer\<close>: the class \<^verbatim>\<open>Tokenizer\<close> as the record \<open>Tokenizer\<close> (\<open>source\<close>,
    \<open>pos\<close>, \<open>line\<close>, \<open>column\<close>) and one function per method: \<open>peek\<close>, \<open>advance\<close>,
    \<open>match\<close>, \<open>skip_whitespace_and_comments\<close> (with its inner loop \<open>skip_comment\<close>),
    \<open>make_token\<close>, \<open>string_tok\<close> (\<^verbatim>\<open>Tokenizer::string\<close>, with its loop \<open>string_loop\<close>),
    \<open>identifier_or_keyword\<close> (with its loop \<open>ident_loop\<close>), \<open>symbol\<close>, and \<open>tokenize\<close>
    (with its loop \<open>tokenize_loop\<close>, whose body chooses the scanner in \<open>next_token\<close>).
    The lemmas: the relation \<open>moves\<close> (same text, position and line never go back) holds
    between the object before and after every method; \<open>tokenizer_inv\<close> (the position is
    within the text, line and column lie between 1 and the position plus 1) is kept by
    every method; the inductive relation \<open>scans\<close> specifies the token loop and
    \<open>tokenize_loop\<close> is proved equal to it; \<open>lexeme\<close> says what a well-formed token is.
  \<^item> \<open>Slayout_Parser\<close>: the statement classes of \<^verbatim>\<open>parser.h\<close> as the datatype \<open>Statement\<close>
    (with the fields \<^verbatim>\<open>parser.cpp\<close> writes), the class \<^verbatim>\<open>Parser\<close> as the record \<open>Parser\<close>
    (\<open>tokens\<close>, \<open>current\<close>) and one function per method: \<open>peek_token\<close>, \<open>previous_token\<close>,
    \<open>advance_token\<close>, \<open>match_token\<close>, \<open>check\<close>, \<open>consume\<close>, \<open>parse_macro_def\<close>,
    \<open>parse_set_or_read\<close> (its \<^verbatim>\<open>do\<close> loop is \<open>parts_loop\<close> over \<open>parse_part\<close>), \<open>parse_lazy\<close>,
    \<open>parse_boolean\<close>, \<open>parse_generate\<close> (its loop is \<open>backends_loop\<close> over
    \<open>parse_backend\<close>), \<open>parse_print\<close>, \<open>parse_backend_enum\<close>, \<open>parse_string\<close> (its loop is
    \<open>concat_loop\<close> over \<open>parse_operand\<close>), and the mutually recursive \<open>parse_statement\<close>,
    \<open>parse_if\<close> and \<open>body_loop\<close>; \<open>parse\<close> is the loop \<open>parse_loop\<close> on a new object.
    The lemmas: what each method returns on every branch (the \<open>_eq\<close> and \<open>_Inr_iff\<close>
    lemmas, over the vocabulary \<open>in_range\<close>, \<open>cur\<close>, \<open>step\<close>, \<open>skip\<close>, \<open>expects\<close>); every
    parsing function moves the index forward (\<open>ahead\<close>), which is the termination
    argument of the recursion; the induction rules \<open>parse_induct\<close> and
    \<open>parse_loop_induct\<close>.
  \<^item> \<open>Slayout_Parser_Safety\<close>: the invariant \<open>parser_inv\<close> (the token list ends with
    \<open>EndOfFile\<close>, the index is inside it), that every method keeps it and reads inside the
    vector (\<open>safe\<close>), and that the statements returned are well formed (\<open>wf_statement\<close>).
  \<^item> \<open>Slayout_Interpreter\<close>: the struct \<^verbatim>\<open>Macro\<close> and the class \<^verbatim>\<open>Interpreter\<close> as records (the
    \<^verbatim>\<open>std::map\<close> members as partial functions, the \<^verbatim>\<open>std::set\<close> as a set, and the lines
    written to \<^verbatim>\<open>std::cout\<close> and \<^verbatim>\<open>std::cerr\<close>), \<open>execute\<close> with one equation per statement
    class, \<open>execute_block\<close>, \<open>interpret_statements\<close> (\<^verbatim>\<open>Interpreter::interpret\<close>),
    \<open>load_file\<close> on a partial function from paths to contents, \<open>to_lower\<close>, the value of a
    setter \<open>compute_value\<close> with its index loop \<open>concat_parts\<close>, the loop of
    \<^verbatim>\<open>generate_select\<close> as \<open>select_backends\<close>, and the two getters.
    The lemmas: \<open>concat_parts\<close> equals the list recursion \<open>join_parts\<close>; the invariant
    \<open>interp_inv\<close> is kept by every statement; which exceptions can arise and when.
  \<^item> \<open>Slayout_Shader_Processor\<close>: \<^verbatim>\<open>std::regex_search\<close> with the one pattern of the program as
    \<open>find_macro\<close>, the choice of a replacement \<open>expand\<close>, the \<^verbatim>\<open>while\<close> loop
    \<open>substitute_loop\<close>, \<open>substitute\<close>, and \<open>process_shader\<close> on the record \<open>World\<close> (the
    files, the paths that cannot be written, \<^verbatim>\<open>std::cout\<close>, \<^verbatim>\<open>std::cerr\<close>).
    The lemmas: \<open>find_macro\<close> is characterised as the leftmost longest match;
    \<open>substitute\<close> equals the reference definition \<open>render\<close>; \<open>process_shader\<close> changes at
    most its output file.
  \<^item> \<open>Slayout_Main\<close>: \<open>compile\<close> (the tokenizer, the parser and the interpreter in
    sequence), \<open>generate_loop\<close> (the loop over the backends), \<open>slayoutc\<close> (\<^verbatim>\<open>main\<close>).
    The lemmas: the exceptions that can leave \<^verbatim>\<open>main\<close>, the files a run can change, and
    the content of the files a successful run has written.
  \<^item> This theory: what the composition of the tokenizer with the parser and the
    interpreter guarantees beyond what each does alone. The tokenizer makes no \<open>Plus\<close>
    token and no keyword \<^verbatim>\<open>string\<close> (\<open>plain_token\<close>); on such tokens the parser returns only
    setters with one argument and no string declaration (\<open>plain_statement\<close>); on such
    statements the interpreter never writes its table of string variables.

  \<^bold>\<open>Termination and bounds.\<close> No fuel is used. Every loop and every recursion of the
  sources is a \<^theory_text>\<open>fun\<close> or a \<^theory_text>\<open>function\<close> with a termination proof: the loops of the
  tokenizer with the measure \<open>remaining t = length (source t) - pos t\<close>, the loops and the
  recursion of the parser with \<open>rest p = length (tokens p) - current p\<close>, the index loop
  of the interpreter with the number of parts left, the substitution loop with the
  length of the text left. \<^verbatim>\<open>size_t\<close> positions and indices are natural numbers; the
  \<^verbatim>\<open>int\<close> line and column counters are integers, and \<open>tokenizer_inv\<close> bounds them by the
  length of the text plus 1, so they do not overflow for a script shorter than
  \<open>2^31 - 1\<close> bytes. Characters are bytes. The \<^verbatim>\<open>std::set\<close> of backends is iterated in the
  order of \<^verbatim>\<open>std::string\<close>, the lexicographic order of \<open>List_Lexorder\<close> over \<open>Char_ord\<close>.

  \<^bold>\<open>Not modelled.\<close>
  \<^item> \<^verbatim>\<open>Interpreter::export_macro_metadata\<close>: it serialises the macro table through the
    \<^verbatim>\<open>nlohmann::json\<close> library, whose source is not part of the repository, and \<^verbatim>\<open>main\<close>
    never calls it.
  \<^item> The final \<^verbatim>\<open>else\<close> of \<^verbatim>\<open>Interpreter::execute\<close> (a statement of no known class): the
    datatype \<open>Statement\<close> has the ten classes the parser constructs and no other.
  \<^item> What the interpreter has printed before an exception: \<open>compile\<close> returns the
    exception alone, so the lines of a \<^verbatim>\<open>print\<close> statement that ran before a failing
    statement are not in the world after the run. The lines of a run that succeeds are.
  \<^item> The file system beyond a partial function from paths to contents and a set of
    paths that cannot be opened for writing: no directories, no permissions, no
    partial writes. The declarations of \<^verbatim>\<open>parser.h\<close> that \<^verbatim>\<open>parser.cpp\<close> does not follow
    (the fields \<^verbatim>\<open>value\<close> and \<^verbatim>\<open>isVariable\<close> of the setter statements) are modelled as
    \<^verbatim>\<open>parser.cpp\<close> and \<^verbatim>\<open>interpreter.cpp\<close> use them (\<^verbatim>\<open>parts\<close> and \<^verbatim>\<open>isLiteral\<close>).
\<close>

section \<open>Scripts as the tokenizer delivers them\<close>

text \<open>
  A token as the tokenizer can make it is \<open>plain\<close>: it is no \<open>Plus\<close> (\<^verbatim>\<open>Tokenizer::symbol\<close>
  has no case for \<^verbatim>\<open>+\<close>) and not the keyword \<^verbatim>\<open>string\<close> (which is not in the list of
  \<^verbatim>\<open>Tokenizer::identifier_or_keyword\<close>). A statement is plain when the parser can build it
  from such tokens: a setter has exactly one argument, and there is no string
  declaration, at any depth of nesting.
\<close>

definition plain_token :: "Token \<Rightarrow> bool" where
  "plain_token tk \<longleftrightarrow>
     tok_type tk \<noteq> Plus \<and> (tok_type tk = Keyword \<longrightarrow> tok_value tk \<noteq> ''string'')"

definition plain :: "Parser \<Rightarrow> bool" where
  "plain p \<longleftrightarrow> list_all plain_token (tokens p)"

fun plain_statement :: "Statement \<Rightarrow> bool" where
  "plain_statement (SetStatement var b vs lits r) \<longleftrightarrow> length vs = 1 \<and> length lits = 1"
| "plain_statement (SetDefaultStatement var vs lits r) \<longleftrightarrow> length vs = 1 \<and> length lits = 1"
| "plain_statement (IfStatement c stmts) \<longleftrightarrow> list_all plain_statement stmts"
| "plain_statement (StringDeclaration n e) \<longleftrightarrow> False"
| "plain_statement s \<longleftrightarrow> True"

lemma lexeme_plain: "lexeme tk \<Longrightarrow> plain_token tk"
  by (auto simp: lexeme_def plain_token_def symbol_lexemes_def reserved_words_def)

lemma tokenize_plain:
  assumes "tokenize t = Inr (toks, t')"
  shows "list_all plain_token toks"
  using assms
proof (rule tokenize_InrD)
  fix new
  assume "toks = new @ [make_token EndOfFile [] t']" and "scans t new t'"
  moreover from this have "list_all plain_token new"
    using scans_lexemes [of t new t'] by (auto simp: list_all_iff intro: lexeme_plain)
  moreover have "plain_token (make_token EndOfFile [] t')" by (simp add: plain_token_def)
  ultimately show ?thesis by simp
qed

lemma plain_cur: "plain p \<Longrightarrow> in_range p \<Longrightarrow> plain_token (cur p)"
  by (simp add: plain_def in_range_def cur_def list_all_length)

lemma plain_step [simp]: "plain (step p) = plain p" "plain (skip n p) = plain p"
  by (simp_all add: plain_def)

lemma plain_ahead: "ahead p p' \<Longrightarrow> plain p' = plain p"
  by (simp add: plain_def ahead_def)

lemma cur_not_Plus [simp]: "plain p \<Longrightarrow> in_range p \<Longrightarrow> tok_type (cur p) \<noteq> Plus"
  by (auto dest: plain_cur simp: plain_token_def)

lemma parts_loop_plain:
  assumes "plain p" and "parts_loop func p vs lits = Inr (vs', lits', p')"
  shows "length vs' = Suc (length vs) \<and> length lits' = Suc (length lits)"
  using assms(2) unfolding parts_loop_Inr_iff [of func p]
  using assms(1) by (auto simp: cur_not_Plus [of "step p"])

lemma setter_plain:
  "setter var func vs lits = Inr s \<Longrightarrow> length vs = 1 \<Longrightarrow> length lits = 1 \<Longrightarrow> plain_statement s"
  by (auto simp: setter_def split: if_splits option.splits)

lemma parse_set_or_read_plain:
  assumes "tok_type (cur p) \<noteq> EndOfFile" and "plain p" and "parse_set_or_read p = Inr (s, p')"
  shows "plain_statement s"
  using assms(3) unfolding parse_set_or_read_Inr_iff [OF assms(1)]
  using assms(2) by (auto split: if_splits dest!: parts_loop_plain [rotated] intro: setter_plain)

lemma parse_other_plain: "plain p \<Longrightarrow> parse_other p = Inr (s, p') \<Longrightarrow> plain_statement s"
  by (auto simp: parse_other_Inr_iff dest: parse_set_or_read_plain [rotated 2])

lemma parse_fixed_plain:
  "parse_macro_def p = Inr (s, p') \<Longrightarrow> plain_statement s"
  "parse_boolean p = Inr (s, p') \<Longrightarrow> plain_statement s"
  "parse_generate p = Inr (s, p') \<Longrightarrow> plain_statement s"
  "parse_print p = Inr (s, p') \<Longrightarrow> plain_statement s"
  by (auto simp: parse_macro_def_Inr_iff parse_boolean_Inr_iff parse_generate_Inr_iff
      parse_print_Inr_iff split: if_splits)

lemma parse_plain_all:
  "plain p \<Longrightarrow> parse_statement p = Inr (s, p') \<Longrightarrow> plain_statement s"
  "plain p \<Longrightarrow> parse_if p = Inr (s, p') \<Longrightarrow> plain_statement s"
  "plain p \<Longrightarrow> body_loop p stmts = Inr (ss, p') \<Longrightarrow> list_all plain_statement stmts \<Longrightarrow>
     list_all plain_statement ss"
proof (induction p and p and p stmts arbitrary: s p' and s p' and ss p' rule: parse_induct)
  case (statement p)
  from statement.prems plain_cur [of p] show ?case
    by (auto simp: parse_statement_eq Let_def plain_token_def split: if_splits
        intro: parse_fixed_plain statement.IH dest: parse_other_plain [rotated])
next
  case (conditional p)
  from conditional.prems(2) obtain stmts p5
    where "expects [LParen, Identifier, RParen, LBrace] p"
      and "body_loop (skip 4 p) [] = Inr (stmts, p5)" and "s = IfStatement (lexeme_at 1 p) stmts"
    by (auto simp: parse_if_Inr_iff)
  with conditional.IH [of stmts p5] conditional.prems(1) show ?case by simp
next
  case (block p stmts)
  note run = block.prems(2) [unfolded body_loop_Inr_iff [of p]]
  show ?case
  proof (cases "tok_type (cur p) = RBrace \<or> tok_type (cur p) = EndOfFile")
    case False
    with run obtain s p1 where one: "parse_statement p = Inr (s, p1)"
      and more: "body_loop p1 (stmts @ [s]) = Inr (ss, p')" by auto
    from False run one block.prems(1) have "plain_statement s" by (simp add: block.IH(1))
    moreover from one block.prems(1) have "plain p1"
      by (simp add: plain_ahead [OF parse_statement_ahead])
    ultimately show ?thesis
      using block.IH(2) [OF _ _ _ one _ more] False run block.prems(3) by simp
  qed (use run block.prems(3) in auto)
qed

lemma parse_loop_plain:
  assumes "plain p" and "parse_loop p stmts = Inr (ss, p')" and "list_all plain_statement stmts"
  shows "list_all plain_statement ss"
  using assms
proof (induction p stmts rule: parse_loop_induct)
  case (round p stmts)
  note run = round.prems(2) [unfolded parse_loop_Inr_iff [of p]]
  show ?case
  proof (cases "tok_type (cur p) = EndOfFile")
    case False
    with run obtain s p1 where one: "parse_statement p = Inr (s, p1)"
      and more: "parse_loop p1 (stmts @ [s]) = Inr (ss, p')" by auto
    from one round.prems(1) have "plain p1" and "plain_statement s"
      by (simp_all add: plain_ahead [OF parse_statement_ahead] parse_plain_all(1))
    with round.IH [OF _ False one _ more] run round.prems(3) show ?thesis by simp
  qed (use run round.prems(3) in simp)
qed

lemma execute_strings_all:
  "plain_statement s \<Longrightarrow> execute fs s st = Inr st' \<Longrightarrow> strings st' = strings st"
  "list_all plain_statement ss \<Longrightarrow> execute_block fs ss st = Inr st' \<Longrightarrow> strings st' = strings st"
proof (induction fs s st and fs ss st arbitrary: st' and st' rule: execute_execute_block.induct)
  case (12 fs s ss st)
  from "12.prems"(2) obtain st1 where one: "execute fs s st = Inr st1"
    and more: "execute_block fs ss st1 = Inr st'"
    by (auto simp: rbind_eq_Inr_iff)
  with "12.IH"(1) [of st1] "12.IH"(2) [of st1 st'] "12.prems"(1) show ?case by simp
qed (auto simp: rbind_eq_Inr_iff split: if_splits)

lemma compile_plain:
  assumes "compile fs src = Inr st"
  obtains stmts where "list_all plain_statement stmts"
    and "interpret_statements fs stmts Interpreter_new = Inr st"
proof -
  from assms obtain toks t stmts p where lex: "tokenize (Tokenizer_new src) = Inr (toks, t)"
    and syn: "parse (Parser_new toks) = Inr (stmts, p)"
    and sem: "interpret_statements fs stmts Interpreter_new = Inr st"
    by (rule compile_InrD)
  from lex have "plain (Parser_new toks)" by (simp add: plain_def Parser_new_def tokenize_plain)
  with syn have "list_all plain_statement stmts"
    by (auto simp: parse_def rbind_eq_Inr_iff dest: parse_loop_plain)
  with sem that show ?thesis by blast
qed

lemma interpret_plain_strings:
  assumes "list_all plain_statement stmts"
    and "interpret_statements fs stmts Interpreter_new = Inr st"
  shows "strings st = Map.empty"
  using execute_strings_all(2) [OF assms(1), of fs Interpreter_new st] assms(2)
  by (simp add: interpret_statements_def Interpreter_new_def)

section \<open>What a compiled script can hold\<close>

text \<open>
  The script \<^verbatim>\<open>macrodef X = Macro("F");\<close> and the state it compiles to, for the examples.
\<close>

definition declaration_source :: string where
  "declaration_source = ''macrodef X = Macro('' @ [dquote] @ ''F'' @ [dquote] @ '');''"

definition declaration_state :: Interpreter where
  "declaration_state =
     Interpreter_new\<lparr>macros := [''F'' \<mapsto> Macro_new ''F''], varToMacroName := [''X'' \<mapsto> ''F'']\<rparr>"

lemma compile_declaration: "compile fs declaration_source = Inr declaration_state"
  by (simp add: declaration_source_def declaration_state_def compile_def tokenizer_eval
      parser_eval interpreter_eval)

text \<open>
  C13. The statements of a script are plain: whatever text the tokenizer accepts and the
  parser then accepts, every setter in the result has exactly one argument and no
  statement is a string declaration, at any depth of nesting. The concatenation with
  \<^verbatim>\<open>+\<close> and the statement \<^verbatim>\<open>string name = ...;\<close> that \<^verbatim>\<open>parser.cpp\<close> implements cannot be
  reached from a script.
\<close>

theorem scripts_are_plain:
  assumes "tokenize (Tokenizer_new src) = Inr (toks, t)"
    and "parse (Parser_new toks) = Inr (stmts, p)"
  shows "list_all plain_statement stmts"
proof -
  from assms(1) have "plain (Parser_new toks)"
    by (simp add: plain_def Parser_new_def tokenize_plain)
  with assms(2) show ?thesis
    by (auto simp: parse_def rbind_eq_Inr_iff dest: parse_loop_plain)
qed

theorem scripts_are_plain_witness:
  "\<exists>toks t stmts p. tokenize (Tokenizer_new declaration_source) = Inr (toks, t)
     \<and> parse (Parser_new toks) = Inr (stmts, p) \<and> list_all plain_statement stmts"
proof -
  obtain toks t stmts p
    where lex: "tokenize (Tokenizer_new declaration_source) = Inr (toks, t)"
      and syn: "parse (Parser_new toks) = Inr (stmts, p)"
    using compile_declaration [of Map.empty] by (rule compile_InrD)
  with scripts_are_plain [OF lex syn] show ?thesis by blast
qed

text \<open>
  C14. The table of string variables is empty after every script that compiles: no
  statement that a script can hold writes \<^verbatim>\<open>strings\<close>, so the lookup of a string variable
  in \<^verbatim>\<open>Interpreter::execute\<close> never succeeds.
\<close>

theorem compile_strings_empty:
  assumes "compile fs src = Inr st"
  shows "strings st = Map.empty"
  using assms by (rule compile_plain) (rule interpret_plain_strings)

theorem compile_strings_empty_witness: "strings declaration_state = Map.empty"
  using compile_strings_empty [OF compile_declaration] by simp

text \<open>
  C35. A setter whose argument is an identifier always throws: in the state after any
  script that compiles, \<^verbatim>\<open>X.set_b(name);\<close> on a declared variable fails with
  \<^verbatim>\<open>Undefined string variable\<close>, and \<^verbatim>\<open>X.read_b(name);\<close> with \<^verbatim>\<open>Expected literal path\<close>.
\<close>

theorem compile_rejects_variable:
  assumes "compile fs src = Inr st" and "varToMacroName st var = Some m"
  shows "execute fs (SetStatement var b [v] [False] isRead) st =
     Inl (RuntimeError (if isRead then ''Expected literal path in read_*''
                        else ''Undefined string variable: '' @ v))"
proof -
  from assms(1) have "interp_inv st" by (rule compile_inv)
  with assms(2) obtain macro where "macros st m = Some macro" by (auto dest: interp_invD(1))
  moreover from assms(1) have "strings st = Map.empty"
    by (rule compile_plain) (rule interpret_plain_strings)
  ultimately show ?thesis
    using assms(2) by (simp add: compute_value_def concat_parts_step)
qed

theorem compile_rejects_variable_witness:
  "execute Map.empty (SetStatement ''X'' ''glsl'' [''y''] [False] False) declaration_state =
     Inl (RuntimeError ''Undefined string variable: y'')"
  using compile_rejects_variable [OF compile_declaration, where var = "''X''" and m = "''F''" and b = "''glsl''" and v = "''y''" and isRead = False]
  by (simp add: declaration_state_def)

end
